theory Spec2Isabelle
  imports Main
begin

section \<open>Host values and objects\<close>

text \<open>
  The plugin runs inside a JavaScript host. Host objects live in a heap indexed by
  references; a reference is the identity of an object, so two values are the same
  reference (\<open>===\<close>) exactly when they are equal here. The two closures that
  \<open>patchVoiceJoinLeave\<close> creates are values of their own: \<open>Wrapper CallStartHook orig\<close> is
  the \<open>async function\<close> around \<open>orig\<close> that runs \<open>onCallStart\<close>,
  \<open>Wrapper CallEndHook orig\<close> the one that runs \<open>onCallEnd\<close>.
\<close>

type_synonym ref = nat

datatype hook = CallStartHook | CallEndHook

datatype jsval =
    JUndefined
  | JNull
  | JBool bool
  | JNum int
  | JStr string
  | JObj ref
  | JFun ref
  | Wrapper hook jsval
  | ResolvedPromise jsval
  | RejectedPromise jsval
  | PendingPromise
  | JTypeError

text \<open>
  A property is a data property or an accessor whose getter throws the given value
  (Metro module records have such lazy getters). An object lists its own enumerable
  properties in enumeration order, the properties it inherits through its prototype chain,
  its elements when it is an array (\<open>Array.isArray\<close>), and whether it is frozen.
\<close>

datatype jsprop = Data jsval | ThrowingGetter jsval

record jsobj =
  own :: "(string \<times> jsprop) list"
  inherited :: "(string \<times> jsprop) list"
  elems :: "jsval list option"
  frozen :: bool

type_synonym heap = "ref \<rightharpoonup> jsobj"

definition empty_obj :: jsobj where
  "empty_obj = \<lparr>own = [], inherited = [], elems = None, frozen = False\<rparr>"

definition the_obj :: "heap \<Rightarrow> ref \<Rightarrow> jsobj" where
  "the_obj h r = (case h r of None \<Rightarrow> empty_obj | Some ob \<Rightarrow> ob)"

fun truthy :: "jsval \<Rightarrow> bool" where
  "truthy JUndefined = False"
| "truthy JNull = False"
| "truthy (JBool b) = b"
| "truthy (JNum n) = (n \<noteq> 0)"
| "truthy (JStr s) = (s \<noteq> [])"
| "truthy _ = True"

fun nullish :: "jsval \<Rightarrow> bool" where
  "nullish JUndefined = True"
| "nullish JNull = True"
| "nullish _ = False"

text \<open>\<open>typeof v === "object"\<close>: true of \<open>null\<close>, false of functions.\<close>

fun typeof_object :: "jsval \<Rightarrow> bool" where
  "typeof_object JNull = True"
| "typeof_object (JObj r) = True"
| "typeof_object (ResolvedPromise v) = True"
| "typeof_object (RejectedPromise v) = True"
| "typeof_object PendingPromise = True"
| "typeof_object JTypeError = True"
| "typeof_object _ = False"

text \<open>\<open>a ?? b\<close> and \<open>a || b\<close> on values that are already evaluated.\<close>

definition coalesce :: "jsval \<Rightarrow> jsval \<Rightarrow> jsval" where
  "coalesce a b = (if nullish a then b else a)"

subsection \<open>Reading, testing and writing a property\<close>

text \<open>Results are sums: \<open>Inl e\<close> is the exception \<open>e\<close> thrown, \<open>Inr v\<close> the value.\<close>

fun from_prop :: "jsprop \<Rightarrow> jsval + jsval" where
  "from_prop (Data v) = Inr v"
| "from_prop (ThrowingGetter e) = Inl e"

definition read_prop :: "jsobj \<Rightarrow> string \<Rightarrow> jsval + jsval" where
  "read_prop ob n =
     (case map_of (own ob) n of
        Some p \<Rightarrow> from_prop p
      | None \<Rightarrow> (case map_of (inherited ob) n of
                   Some p \<Rightarrow> from_prop p
                 | None \<Rightarrow> Inr JUndefined))"

text \<open>
  \<open>v[n]\<close>. Reading from \<open>undefined\<close> or \<open>null\<close> throws a TypeError; primitives,
  closures, promises and error objects carry no property that the plugin looks at.
\<close>

fun get :: "heap \<Rightarrow> jsval \<Rightarrow> string \<Rightarrow> jsval + jsval" where
  "get h JUndefined n = Inl JTypeError"
| "get h JNull n = Inl JTypeError"
| "get h (JObj r) n = read_prop (the_obj h r) n"
| "get h (JFun r) n = read_prop (the_obj h r) n"
| "get h _ n = Inr JUndefined"

text \<open>\<open>v?.n\<close>\<close>

definition opt_get :: "heap \<Rightarrow> jsval \<Rightarrow> string \<Rightarrow> jsval + jsval" where
  "opt_get h v n = (if nullish v then Inr JUndefined else get h v n)"

definition has_key :: "(string \<times> jsprop) list \<Rightarrow> string \<Rightarrow> bool" where
  "has_key kvs n = (case map_of kvs n of None \<Rightarrow> False | Some p \<Rightarrow> True)"

definition own_has :: "jsobj \<Rightarrow> string \<Rightarrow> bool" where
  "own_has ob n = has_key (own ob) n"

definition obj_has :: "jsobj \<Rightarrow> string \<Rightarrow> bool" where
  "obj_has ob n = (if has_key (own ob) n then True else has_key (inherited ob) n)"

text \<open>
  \<open>n in v\<close>: own or inherited. On a value that is not an object the operator throws.
\<close>

fun js_in :: "heap \<Rightarrow> string \<Rightarrow> jsval \<Rightarrow> jsval + bool" where
  "js_in h n (JObj r) = Inr (obj_has (the_obj h r) n)"
| "js_in h n (JFun r) = Inr (obj_has (the_obj h r) n)"
| "js_in h n (Wrapper k f) = Inr False"
| "js_in h n (ResolvedPromise v) = Inr False"
| "js_in h n (RejectedPromise v) = Inr False"
| "js_in h n PendingPromise = Inr False"
| "js_in h n JTypeError = Inr False"
| "js_in h n _ = Inl JTypeError"

fun set_own :: "string \<Rightarrow> jsval \<Rightarrow> (string \<times> jsprop) list \<Rightarrow> (string \<times> jsprop) list" where
  "set_own n v [] = [(n, Data v)]"
| "set_own n v ((k, p) # kvs) = (if k = n then (k, Data v) # kvs else (k, p) # set_own n v kvs)"

text \<open>
  \<open>ob[n] = v\<close> in strict mode (module code): a frozen object and an accessor without a
  setter refuse the write with a TypeError; otherwise the own data property is
  replaced, or created after the existing ones.
\<close>

definition write_prop :: "jsobj \<Rightarrow> string \<Rightarrow> jsval \<Rightarrow> jsval + jsobj" where
  "write_prop ob n v =
     (if frozen ob then Inl JTypeError
      else case map_of (own ob) n of
        Some (ThrowingGetter e) \<Rightarrow> Inl JTypeError
      | Some (Data u) \<Rightarrow> Inr (ob\<lparr>own := set_own n v (own ob)\<rparr>)
      | None \<Rightarrow> (case map_of (inherited ob) n of
                   Some (ThrowingGetter e) \<Rightarrow> Inl JTypeError
                 | _ \<Rightarrow> Inr (ob\<lparr>own := set_own n v (own ob)\<rparr>)))"

text \<open>
  \<open>v[n] = x\<close>. Only heap objects take writes in this model; a write to anything else is
  reported as a TypeError (for primitives that is what strict mode does).
\<close>

fun put :: "heap \<Rightarrow> jsval \<Rightarrow> string \<Rightarrow> jsval \<Rightarrow> jsval + heap" where
  "put h (JObj r) n x =
     (case write_prop (the_obj h r) n x of Inl e \<Rightarrow> Inl e | Inr ob \<Rightarrow> Inr (h(r \<mapsto> ob)))"
| "put h (JFun r) n x =
     (case write_prop (the_obj h r) n x of Inl e \<Rightarrow> Inl e | Inr ob \<Rightarrow> Inr (h(r \<mapsto> ob)))"
| "put h _ n x = Inl JTypeError"

section \<open>The reversible interception layer\<close>

text \<open>
  \<open>monkeyPatch(obj, method, patcher)\<close> reads the current method, stores
  \<open>patcher(orig)\<close> in its place and returns the closure \<open>() => { obj[method] = orig }\<close>,
  here the record of what the closure captured.
\<close>

datatype unpatch = Unpatch jsval string jsval

definition monkeyPatch ::
  "jsval \<Rightarrow> string \<Rightarrow> (jsval \<Rightarrow> jsval) \<Rightarrow> heap \<Rightarrow> jsval + (unpatch \<times> heap)" where
  "monkeyPatch obj method patcher h =
     (case get h obj method of
        Inl e \<Rightarrow> Inl e
      | Inr orig \<Rightarrow>
          (case put h obj method (patcher orig) of
             Inl e \<Rightarrow> Inl e
           | Inr h' \<Rightarrow> Inr (Unpatch obj method orig, h')))"

fun run_unpatch :: "unpatch \<Rightarrow> heap \<Rightarrow> jsval + heap" where
  "run_unpatch (Unpatch obj method orig) h = put h obj method orig"


section \<open>The world the plugin runs in\<close>

text \<open>
  Everything the plugin can observe or change is one record. The host side: the heap,
  the global object, what each host function does when called (it may depend on the
  moment of the call, counted in events so far, on \<open>this\<close> and on the arguments), and
  the interval timers registered with the host as pairs of identifier and period in
  milliseconds. The module state of \<open>index.ts\<close>: \<open>Settings\<close>, the six module-level
  handles, \<open>patches\<close> and \<open>intervalId\<close>. And the object that \<open>settings.tsx\<close> keeps in
  \<open>globalThis.__TelegramCallsSettings\<close> (\<open>None\<close> while that slot is nullish).

  The trace is a ghost record of what the plugin did: every call of a host function
  with the name used at the call site, every \<open>console.log\<close>, every entry into
  \<open>onCallStart\<close> or \<open>onCallEnd\<close>, and every revert closure that \<open>onUnload\<close> runs.
  Host functions are opaque: a call is recorded and answered, and leaves heap and
  module state as they are.
\<close>

datatype event =
    Invoke string jsval ref "jsval list"
  | ConsoleLog string
  | Ran hook
  | Reverted unpatch

record settings =
  forceModeNormalOnWired :: bool
  keepStereoMedia :: bool
  disableAttenuation :: bool
  relaxMicDSP :: bool
  verboseLogs :: bool

record world =
  heap :: heap
  globalThis :: ref
  respond :: "nat \<Rightarrow> ref \<Rightarrow> jsval \<Rightarrow> jsval list \<Rightarrow> jsval + jsval"
  timers :: "(nat \<times> nat) list"
  trace :: "event list"
  Settings :: settings
  VoiceStore :: jsval
  MediaEngine :: jsval
  AttenuationStore :: jsval
  AudioManagerNative :: jsval
  DeviceManager :: jsval
  VoiceConnection :: jsval
  patches :: "unpatch list"
  intervalId :: "nat option"
  TelegramCallsSettings :: "settings option"

text \<open>A statement that may throw: \<open>Some e\<close> is the exception.\<close>

type_synonym step = "world \<Rightarrow> jsval option \<times> world"

definition emit :: "event \<Rightarrow> world \<Rightarrow> world" where
  "emit ev w = w\<lparr>trace := trace w @ [ev]\<rparr>"

text \<open>
  \<open>f.call(this, ...args)\<close> at a synchronous call site. A value that is not a function
  cannot be called. A wrapper is an \<open>async function\<close>: it hands back a promise; its body
  is \<open>run_async\<close> below, and no synchronous call site of the plugin uses one of the
  patched method names.
\<close>

definition call_fn ::
  "string \<Rightarrow> jsval \<Rightarrow> jsval \<Rightarrow> jsval list \<Rightarrow> world \<Rightarrow> (jsval + jsval) \<times> world" where
  "call_fn site this f args w =
     (case f of
        JFun r \<Rightarrow> (respond w (length (trace w)) r this args, emit (Invoke site this r args) w)
      | Wrapper k g \<Rightarrow> (Inr PendingPromise, w)
      | _ \<Rightarrow> (Inl JTypeError, w))"

text \<open>\<open>obj.m(args)\<close>, \<open>obj.m?.(args)\<close> and \<open>obj?.m?.(args)\<close>\<close>

definition call_method ::
  "jsval \<Rightarrow> string \<Rightarrow> jsval list \<Rightarrow> world \<Rightarrow> (jsval + jsval) \<times> world" where
  "call_method obj m args w =
     (case get (heap w) obj m of
        Inl e \<Rightarrow> (Inl e, w)
      | Inr f \<Rightarrow> call_fn m obj f args w)"

definition call_method_opt ::
  "jsval \<Rightarrow> string \<Rightarrow> jsval list \<Rightarrow> world \<Rightarrow> (jsval + jsval) \<times> world" where
  "call_method_opt obj m args w =
     (case get (heap w) obj m of
        Inl e \<Rightarrow> (Inl e, w)
      | Inr f \<Rightarrow> if nullish f then (Inr JUndefined, w) else call_fn m obj f args w)"

definition opt_call_method_opt ::
  "jsval \<Rightarrow> string \<Rightarrow> jsval list \<Rightarrow> world \<Rightarrow> (jsval + jsval) \<times> world" where
  "opt_call_method_opt obj m args w =
     (case opt_get (heap w) obj m of
        Inl e \<Rightarrow> (Inl e, w)
      | Inr f \<Rightarrow> if nullish f then (Inr JUndefined, w) else call_fn m obj f args w)"

text \<open>An expression statement: the value is dropped, an exception is kept.\<close>

definition discard :: "(world \<Rightarrow> (jsval + jsval) \<times> world) \<Rightarrow> step" where
  "discard c w = (case c w of (Inl e, w') \<Rightarrow> (Some e, w') | (Inr v, w') \<Rightarrow> (None, w'))"

text \<open>Statements in sequence, and \<open>try { body } catch (e) { handler }\<close>.\<close>

fun seq :: "step list \<Rightarrow> step" where
  "seq [] w = (None, w)"
| "seq (s # ss) w = (case s w of (Some e, w') \<Rightarrow> (Some e, w') | (None, w') \<Rightarrow> seq ss w')"

definition try_catch :: "step \<Rightarrow> (jsval \<Rightarrow> world \<Rightarrow> world) \<Rightarrow> world \<Rightarrow> world" where
  "try_catch body handler w =
     (case body w of (None, w') \<Rightarrow> w' | (Some e, w') \<Rightarrow> handler e w')"

text \<open>\<open>if (obj?.m) obj.m(args);\<close>\<close>

definition call_if_present :: "jsval \<Rightarrow> string \<Rightarrow> jsval list \<Rightarrow> step" where
  "call_if_present obj m args w =
     (case opt_get (heap w) obj m of
        Inl e \<Rightarrow> (Some e, w)
      | Inr f \<Rightarrow> if truthy f then discard (call_method obj m args) w else (None, w))"

section \<open>Settings and logging\<close>

definition default_settings :: settings where
  "default_settings =
     \<lparr>forceModeNormalOnWired = True, keepStereoMedia = True, disableAttenuation = True,
      relaxMicDSP = True, verboseLogs = False\<rparr>"

definition log :: "string \<Rightarrow> world \<Rightarrow> world" where
  "log msg w = (if verboseLogs (Settings w) then emit (ConsoleLog msg) w else w)"

definition log_step :: "string \<Rightarrow> step" where
  "log_step msg w = (None, log msg w)"

section \<open>The module locator\<close>

text \<open>\<open>Object.values\<close> reads every own property; a throwing getter makes it throw.\<close>

fun values_of :: "(string \<times> jsprop) list \<Rightarrow> jsval + jsval list" where
  "values_of [] = Inr []"
| "values_of ((k, p) # kvs) =
     (case from_prop p of
        Inl e \<Rightarrow> Inl e
      | Inr v \<Rightarrow> (case values_of kvs of Inl e \<Rightarrow> Inl e | Inr vs \<Rightarrow> Inr (v # vs)))"

fun object_values :: "heap \<Rightarrow> jsval \<Rightarrow> jsval + jsval list" where
  "object_values h (JObj r) = values_of (own (the_obj h r))"
| "object_values h v = Inr []"

fun array_elems :: "heap \<Rightarrow> jsval \<Rightarrow> jsval list option" where
  "array_elems h (JObj r) = elems (the_obj h r)"
| "array_elems h v = None"

text \<open>The loop of \<open>getModules\<close> over the four candidates.\<close>

fun pick_modules :: "heap \<Rightarrow> jsval list \<Rightarrow> jsval + jsval list" where
  "pick_modules h [] = Inr []"
| "pick_modules h (c # cs) =
     (if \<not> truthy c then pick_modules h cs
      else case array_elems h c of
        Some xs \<Rightarrow> Inr xs
      | None \<Rightarrow> if typeof_object c then object_values h c else pick_modules h cs)"

text \<open>
  The array literal \<open>[g.modules, g.__r?.getModules?.(), g.__r?.modules, g.__c?.modules]\<close>
  evaluates all four entries, in this order, before the loop looks at any of them.
\<close>

definition getModules :: "world \<Rightarrow> (jsval + jsval list) \<times> world" where
  "getModules w =
     (let g = JObj (globalThis w) in
      case get (heap w) g ''modules'' of
        Inl e \<Rightarrow> (Inl e, w)
      | Inr c1 \<Rightarrow>
     (case get (heap w) g ''__r'' of
        Inl e \<Rightarrow> (Inl e, w)
      | Inr r \<Rightarrow>
     (case opt_call_method_opt r ''getModules'' [] w of
        (Inl e, w1) \<Rightarrow> (Inl e, w1)
      | (Inr c2, w1) \<Rightarrow>
     (case get (heap w1) g ''__r'' of
        Inl e \<Rightarrow> (Inl e, w1)
      | Inr r' \<Rightarrow>
     (case opt_get (heap w1) r' ''modules'' of
        Inl e \<Rightarrow> (Inl e, w1)
      | Inr c3 \<Rightarrow>
     (case get (heap w1) g ''__c'' of
        Inl e \<Rightarrow> (Inl e, w1)
      | Inr c \<Rightarrow>
     (case opt_get (heap w1) c ''modules'' of
        Inl e \<Rightarrow> (Inl e, w1)
      | Inr c4 \<Rightarrow> (pick_modules (heap w1) [c1, c2, c3, c4], w1))))))))"

text \<open>\<open>props.every((p) => p in v)\<close>\<close>

fun every_in :: "heap \<Rightarrow> string list \<Rightarrow> jsval \<Rightarrow> jsval + bool" where
  "every_in h [] v = Inr True"
| "every_in h (p # ps) v =
     (case js_in h p v of
        Inl e \<Rightarrow> Inl e
      | Inr b \<Rightarrow> if b then every_in h ps v else Inr False)"

text \<open>
  The body of the \<open>try\<close> in \<open>findByProps\<close> for one module: \<open>Inr (Some v)\<close> returns \<open>v\<close>,
  \<open>Inr None\<close> goes on to the next module, \<open>Inl e\<close> throws into the empty \<open>catch\<close>.
\<close>

definition probe :: "heap \<Rightarrow> string list \<Rightarrow> jsval \<Rightarrow> jsval + jsval option" where
  "probe h props md =
     (case opt_get h md ''exports'' of
        Inl e \<Rightarrow> Inl e
      | Inr x \<Rightarrow>
          (let exp = coalesce x md in
           if \<not> truthy exp then Inr None
           else if \<not> typeof_object exp then Inr None
           else (case every_in h props exp of
             Inl e \<Rightarrow> Inl e
           | Inr b \<Rightarrow>
               if b then Inr (Some exp)
               else (case get h exp ''default'' of
                 Inl e \<Rightarrow> Inl e
               | Inr d \<Rightarrow>
                   if truthy d \<and> typeof_object d
                   then (case every_in h props d of
                           Inl e \<Rightarrow> Inl e
                         | Inr b' \<Rightarrow> if b' then Inr (Some d) else Inr None)
                   else Inr None))))"

fun findByProps_loop :: "heap \<Rightarrow> string list \<Rightarrow> jsval list \<Rightarrow> jsval" where
  "findByProps_loop h props [] = JNull"
| "findByProps_loop h props (m # ms) =
     (case probe h props m of
        Inr (Some v) \<Rightarrow> v
      | _ \<Rightarrow> findByProps_loop h props ms)"

definition findByProps :: "string list \<Rightarrow> world \<Rightarrow> (jsval + jsval) \<times> world" where
  "findByProps props w =
     (case getModules w of
        (Inl e, w') \<Rightarrow> (Inl e, w')
      | (Inr mods, w') \<Rightarrow> (Inr (findByProps_loop (heap w') props mods), w'))"

text \<open>The loop body of \<open>findByDisplayName\<close>; there is no \<open>try\<close> around it.\<close>

definition match_name :: "heap \<Rightarrow> string \<Rightarrow> jsval \<Rightarrow> jsval + jsval option" where
  "match_name h name md =
     (case opt_get h md ''exports'' of
        Inl e \<Rightarrow> Inl e
      | Inr x \<Rightarrow>
          (let exp = coalesce x md in
           case opt_get h exp ''default'' of
             Inl e \<Rightarrow> Inl e
           | Inr y \<Rightarrow>
               (let cand = coalesce y exp in
                case opt_get h cand ''displayName'' of
                  Inl e \<Rightarrow> Inl e
                | Inr dn \<Rightarrow>
                    if dn = JStr name then Inr (Some cand)
                    else (case opt_get h cand ''name'' of
                      Inl e \<Rightarrow> Inl e
                    | Inr nm \<Rightarrow> if nm = JStr name then Inr (Some cand) else Inr None))))"

fun findByDisplayName_loop :: "heap \<Rightarrow> string \<Rightarrow> jsval list \<Rightarrow> jsval + jsval" where
  "findByDisplayName_loop h name [] = Inr JNull"
| "findByDisplayName_loop h name (m # ms) =
     (case match_name h name m of
        Inl e \<Rightarrow> Inl e
      | Inr (Some c) \<Rightarrow> Inr c
      | Inr None \<Rightarrow> findByDisplayName_loop h name ms)"

definition findByDisplayName :: "string \<Rightarrow> world \<Rightarrow> (jsval + jsval) \<times> world" where
  "findByDisplayName name w =
     (case getModules w of
        (Inl e, w') \<Rightarrow> (Inl e, w')
      | (Inr mods, w') \<Rightarrow> (findByDisplayName_loop (heap w') name mods, w'))"


section \<open>Resolving the targets\<close>

text \<open>\<open>a || findByProps(...props)\<close>\<close>

definition or_find :: "jsval \<Rightarrow> string list \<Rightarrow> world \<Rightarrow> (jsval + jsval) \<times> world" where
  "or_find a props w = (if truthy a then (Inr a, w) else findByProps props w)"

definition find_audio_manager :: "world \<Rightarrow> (jsval + jsval) \<times> world" where
  "find_audio_manager w =
     (let g = JObj (globalThis w) in
      case get (heap w) g ''NativeModules'' of
        Inl e \<Rightarrow> (Inl e, w)
      | Inr nm \<Rightarrow>
     (case opt_get (heap w) nm ''RNCAudioManager'' of
        Inl e \<Rightarrow> (Inl e, w)
      | Inr a \<Rightarrow>
          if truthy a then (Inr a, w)
          else (case get (heap w) g ''NativeModules'' of
            Inl e \<Rightarrow> (Inl e, w)
          | Inr nm' \<Rightarrow>
         (case opt_get (heap w) nm' ''AudioManager'' of
            Inl e \<Rightarrow> (Inl e, w)
          | Inr b \<Rightarrow> or_find b [''setMode'', ''setSpeakerphoneOn''] w))))"

text \<open>
  The top level of \<open>index.ts\<close>: \<open>patches\<close>, \<open>Settings\<close>, the six handles in source order,
  \<open>intervalId\<close>. An exception here aborts the evaluation of the module.
\<close>

definition index_ts_init :: step where
  "index_ts_init w0 =
     (let w = w0\<lparr>patches := [], Settings := default_settings\<rparr> in
      case findByProps [''getCurrentVoiceChannelId'', ''isInCall''] w of
        (Inl e, w1) \<Rightarrow> (Some e, w1)
      | (Inr vs, w1) \<Rightarrow>
     (case findByProps [''setSelfMute'', ''setInputVolume'', ''setNoiseSuppression''] w1 of
        (Inl e, w2) \<Rightarrow> (Some e, w2)
      | (Inr me, w2) \<Rightarrow>
     (case findByProps [''getAttenuation'', ''setAttenuation''] w2 of
        (Inl e, w3) \<Rightarrow> (Some e, w3)
      | (Inr att, w3) \<Rightarrow>
     (case find_audio_manager w3 of
        (Inl e, w4) \<Rightarrow> (Some e, w4)
      | (Inr am, w4) \<Rightarrow>
     (case findByProps [''isHeadsetConnected'', ''isBluetoothConnected''] w4 of
        (Inl e, w5) \<Rightarrow> (Some e, w5)
      | (Inr dm, w5) \<Rightarrow>
     (case findByProps [''join'', ''leave'', ''setLocalMute''] w5 of
        (Inl e, w6) \<Rightarrow> (Some e, w6)
      | (Inr vc, w6) \<Rightarrow>
     (case or_find vc [''joinCall'', ''leaveCall''] w6 of
        (Inl e, w7) \<Rightarrow> (Some e, w7)
      | (Inr vc', w7) \<Rightarrow>
          (None, w7\<lparr>VoiceStore := vs, MediaEngine := me, AttenuationStore := att,
                     AudioManagerNative := am, DeviceManager := dm, VoiceConnection := vc',
                     intervalId := None\<rparr>))))))))"

section \<open>The policy engine\<close>

definition isWiredHeadphones :: "world \<Rightarrow> bool \<times> world" where
  "isWiredHeadphones w =
     (case opt_get (heap w) (DeviceManager w) ''isHeadsetConnected'' of
        Inl e \<Rightarrow> (False, w)
      | Inr f \<Rightarrow>
          if truthy f
          then (case call_method (DeviceManager w) ''isHeadsetConnected'' [] w of
                  (Inl e, w') \<Rightarrow> (False, w')
                | (Inr v, w') \<Rightarrow> (truthy v, w'))
          else (False, w))"

text \<open>\<open>if (!obj?.m) return; rest\<close> inside a \<open>try\<close>\<close>

definition unless_missing :: "jsval \<Rightarrow> string \<Rightarrow> step list \<Rightarrow> step" where
  "unless_missing obj m rest w =
     (case opt_get (heap w) obj m of
        Inl e \<Rightarrow> (Some e, w)
      | Inr f \<Rightarrow> if \<not> truthy f then (None, w) else seq rest w)"

definition safeSetAudioModeNormal :: "world \<Rightarrow> world" where
  "safeSetAudioModeNormal w =
     try_catch
       (unless_missing (AudioManagerNative w) ''setMode''
          [discard (call_method (AudioManagerNative w) ''setMode'' [JNum 0]),
           log_step ''Forced AudioManager.MODE_NORMAL''])
       (\<lambda>e. log ''setMode failed'') w"

definition ensureMediaStreamNotDucked :: "world \<Rightarrow> world" where
  "ensureMediaStreamNotDucked w =
     try_catch
       (unless_missing (AttenuationStore w) ''setAttenuation''
          [discard (call_method (AttenuationStore w) ''setAttenuation'' [JNum 0]),
           log_step ''Attenuation set to 0%''])
       (\<lambda>e. log ''Failed to set attenuation'') w"

definition relaxMicProcessing :: "world \<Rightarrow> world" where
  "relaxMicProcessing w =
     (if \<not> truthy (MediaEngine w) then w
      else try_catch
        (seq [discard (call_method_opt (MediaEngine w) ''setEchoCancellation'' [JBool False]),
              discard (call_method_opt (MediaEngine w) ''setNoiseSuppression'' [JBool False]),
              discard (call_method_opt (MediaEngine w) ''setAutomaticGainControl'' [JBool False]),
              discard (call_method_opt (MediaEngine w) ''setOpusEncoderEnableFEC'' [JBool True]),
              discard (call_method_opt (MediaEngine w) ''setOpusBitrate'' [JNum 64000]),
              log_step ''Relaxed mic DSP and set bitrate''])
        (\<lambda>e. log ''Mic DSP tuning failed'') w)"

text \<open>
  \<open>findByProps("setChannelCount", "setSampleRate") || findByProps("setOutputConfig")\<close>,
  evaluated inside \<open>preferStereoOutput\<close> each time it runs.
\<close>

definition find_player :: "world \<Rightarrow> (jsval + jsval) \<times> world" where
  "find_player w =
     (case findByProps [''setChannelCount'', ''setSampleRate''] w of
        (Inl e, w1) \<Rightarrow> (Inl e, w1)
      | (Inr p, w1) \<Rightarrow> or_find p [''setOutputConfig''] w1)"

definition preferStereoOutput :: "world \<Rightarrow> world" where
  "preferStereoOutput w =
     try_catch
       (\<lambda>w. case find_player w of
               (Inl e, w1) \<Rightarrow> (Some e, w1)
             | (Inr Player, w1) \<Rightarrow>
                 seq [call_if_present Player ''setChannelCount'' [JNum 2],
                      call_if_present Player ''setSampleRate'' [JNum 48000],
                      log_step ''Preferred stereo, 48 kHz output''] w1)
       (\<lambda>e. log ''Stereo preference failed'') w"

definition onCallStart :: "world \<Rightarrow> world" where
  "onCallStart w =
     (let w0 = emit (Ran CallStartHook) w;
          w1 = (if disableAttenuation (Settings w0) then ensureMediaStreamNotDucked w0 else w0);
          w2 = (if keepStereoMedia (Settings w1) then preferStereoOutput w1 else w1);
          w3 = (if relaxMicDSP (Settings w2) then relaxMicProcessing w2 else w2)
      in if forceModeNormalOnWired (Settings w3)
         then (case isWiredHeadphones w3 of
                 (b, w4) \<Rightarrow> if b then safeSetAudioModeNormal w4 else w4)
         else w3)"

definition onCallEnd :: "world \<Rightarrow> world" where
  "onCallEnd w =
     try_catch
       (\<lambda>w. if relaxMicDSP (Settings w) \<and> truthy (MediaEngine w)
             then seq [discard (call_method_opt (MediaEngine w) ''setEchoCancellation'' [JBool True]),
                       discard (call_method_opt (MediaEngine w) ''setNoiseSuppression'' [JBool True]),
                       discard (call_method_opt (MediaEngine w) ''setAutomaticGainControl'' [JBool True]),
                       log_step ''Restored mic DSP defaults''] w
             else (None, w))
       (\<lambda>e w. w) (emit (Ran CallEndHook) w)"

section \<open>The join and leave wrappers\<close>

text \<open>
  What an awaited call comes to. \<open>await\<close> is taken in one step: the wrapper resumes with
  the outcome of the original, or never when the promise stays pending.
\<close>

datatype settled = Resolved jsval | Rejected jsval | Pending

fun settle :: "jsval + jsval \<Rightarrow> settled" where
  "settle (Inl e) = Rejected e"
| "settle (Inr (ResolvedPromise v)) = Resolved v"
| "settle (Inr (RejectedPromise e)) = Rejected e"
| "settle (Inr PendingPromise) = Pending"
| "settle (Inr v) = Resolved v"

text \<open>
  The rest of the join wrapper after \<open>await orig.apply(this, args)\<close>:
  \<open>onCallStart(); return res;\<close>
\<close>

fun after_join :: "settled \<times> world \<Rightarrow> settled \<times> world" where
  "after_join (Resolved res, w) = (Resolved res, onCallStart w)"
| "after_join (Rejected e, w) = (Rejected e, w)"
| "after_join (Pending, w) = (Pending, w)"

text \<open>
  The rest of the leave wrapper:
  \<open>try { const res = await ...; onCallEnd(); return res; } finally { onCallEnd(); }\<close>
\<close>

fun after_leave :: "settled \<times> world \<Rightarrow> settled \<times> world" where
  "after_leave (Resolved res, w) =
     (let w_try = onCallEnd w; w_finally = onCallEnd w_try in (Resolved res, w_finally))"
| "after_leave (Rejected e, w) = (let w_finally = onCallEnd w in (Rejected e, w_finally))"
| "after_leave (Pending, w) = (Pending, w)"

text \<open>
  Calling a function value and awaiting it. A host function answers as the host says.
  A wrapper calls its original the same way and goes on as above; the original is
  whatever was in the slot when it was patched.
\<close>

fun run_async :: "jsval \<Rightarrow> jsval \<Rightarrow> jsval list \<Rightarrow> world \<Rightarrow> settled \<times> world" where
  "run_async (JFun r) this args w =
     (settle (respond w (length (trace w)) r this args), emit (Invoke ''orig'' this r args) w)"
| "run_async (Wrapper CallStartHook orig) this args w = after_join (run_async orig this args w)"
| "run_async (Wrapper CallEndHook orig) this args w = after_leave (run_async orig this args w)"
| "run_async v this args w = (Rejected JTypeError, w)"

section \<open>Patching the voice connection\<close>

text \<open>\<open>a in VoiceConnection && b in VoiceConnection\<close>\<close>

definition both_in :: "string \<Rightarrow> string \<Rightarrow> world \<Rightarrow> jsval + bool" where
  "both_in a b w =
     (case js_in (heap w) a (VoiceConnection w) of
        Inl e \<Rightarrow> Inl e
      | Inr x \<Rightarrow> if x then js_in (heap w) b (VoiceConnection w) else Inr False)"

text \<open>The two \<open>patches.push(monkeyPatch(VoiceConnection, ...))\<close> of either branch.\<close>

definition patch_pair :: "string \<Rightarrow> string \<Rightarrow> step" where
  "patch_pair j l w =
     (case monkeyPatch (VoiceConnection w) j (Wrapper CallStartHook) (heap w) of
        Inl e \<Rightarrow> (Some e, w)
      | Inr (un1, h1) \<Rightarrow>
          (let w1 = w\<lparr>heap := h1, patches := patches w @ [un1]\<rparr> in
           case monkeyPatch (VoiceConnection w1) l (Wrapper CallEndHook) (heap w1) of
             Inl e \<Rightarrow> (Some e, w1)
           | Inr (un2, h2) \<Rightarrow> (None, w1\<lparr>heap := h2, patches := patches w1 @ [un2]\<rparr>)))"

definition patchVoiceJoinLeave :: step where
  "patchVoiceJoinLeave w =
     (if \<not> truthy (VoiceConnection w) then (None, w)
      else case both_in ''joinCall'' ''leaveCall'' w of
        Inl e \<Rightarrow> (Some e, w)
      | Inr explicit \<Rightarrow>
          if explicit then patch_pair ''joinCall'' ''leaveCall'' w
          else (case both_in ''join'' ''leave'' w of
                  Inl e \<Rightarrow> (Some e, w)
                | Inr generic \<Rightarrow>
                    if generic then patch_pair ''join'' ''leave'' w else (None, w)))"

section \<open>The watchdog\<close>

text \<open>
  \<open>setInterval\<close> registers a timer with the host and returns a fresh positive
  identifier; \<open>clearInterval\<close> removes it.
\<close>

definition setInterval :: "nat \<Rightarrow> world \<Rightarrow> nat \<times> world" where
  "setInterval period w =
     (let i = Suc (fold max (map fst (timers w)) 0)
      in (i, w\<lparr>timers := timers w @ [(i, period)]\<rparr>))"

definition clearInterval :: "nat \<Rightarrow> world \<Rightarrow> world" where
  "clearInterval i w = w\<lparr>timers := filter (\<lambda>t. fst t \<noteq> i) (timers w)\<rparr>"

definition stopWatchdog :: "world \<Rightarrow> world" where
  "stopWatchdog w =
     (let w1 = (case intervalId w of
                  None \<Rightarrow> w
                | Some i \<Rightarrow> if i \<noteq> 0 then clearInterval i w else w)
      in w1\<lparr>intervalId := None\<rparr>)"

definition startWatchdog :: "world \<Rightarrow> world" where
  "startWatchdog w =
     (let w1 = stopWatchdog w in
      case setInterval 2000 w1 of (i, w2) \<Rightarrow> w2\<lparr>intervalId := Some i\<rparr>)"

text \<open>The callback given to \<open>setInterval\<close>; nothing catches what \<open>isInCall\<close> throws.\<close>

definition watchdog_tick :: step where
  "watchdog_tick w =
     (case opt_call_method_opt (VoiceStore w) ''isInCall'' [] w of
        (Inl e, w1) \<Rightarrow> (Some e, w1)
      | (Inr v, w1) \<Rightarrow>
          if \<not> truthy v then (None, w1)
          else (let w2 = (if disableAttenuation (Settings w1)
                          then ensureMediaStreamNotDucked w1 else w1);
                    w3 = (if keepStereoMedia (Settings w2) then preferStereoOutput w2 else w2)
                in (None, w3)))"

section \<open>Load and unload\<close>

definition onLoad :: step where
  "onLoad w =
     (case patchVoiceJoinLeave (log ''Loading TelegramCalls'' w) of
        (Some e, w1) \<Rightarrow> (Some e, w1)
      | (None, w1) \<Rightarrow>
          (None,
           try_catch
             (\<lambda>w. case opt_call_method_opt (VoiceStore w) ''isInCall'' [] w of
                     (Inl e, w') \<Rightarrow> (Some e, w')
                   | (Inr v, w') \<Rightarrow> (None, if truthy v then onCallStart w' else w'))
             (\<lambda>e w. w) (startWatchdog w1)))"

text \<open>\<open>for (const un of patches.splice(0)) try { un(); } catch {}\<close>\<close>

fun run_reverts :: "unpatch list \<Rightarrow> world \<Rightarrow> world" where
  "run_reverts [] w = w"
| "run_reverts (un # uns) w =
     (let w0 = emit (Reverted un) w;
          w1 = (case run_unpatch un (heap w0) of Inl e \<Rightarrow> w0 | Inr h \<Rightarrow> w0\<lparr>heap := h\<rparr>)
      in run_reverts uns w1)"

definition onUnload :: "world \<Rightarrow> world" where
  "onUnload w =
     (let w0 = log ''Unloading TelegramCalls'' w;
          spliced = patches w0;
          w1 = run_reverts spliced (w0\<lparr>patches := []\<rparr>);
          w2 = stopWatchdog w1
      in onCallEnd w2)"

section \<open>The settings form\<close>

text \<open>
  \<open>settings.tsx\<close> takes its object from \<open>globalThis.__TelegramCallsSettings\<close>, creating
  it with the defaults when the slot is nullish, and \<open>upd\<close> writes one flag of that
  object. \<open>index.ts\<close> never stores its own \<open>Settings\<close> literal in that slot and never reads
  the slot.
\<close>

datatype setting_key =
  ForceModeNormalOnWired | KeepStereoMedia | DisableAttenuation | RelaxMicDSP | VerboseLogs

fun get_setting :: "setting_key \<Rightarrow> settings \<Rightarrow> bool" where
  "get_setting ForceModeNormalOnWired s = forceModeNormalOnWired s"
| "get_setting KeepStereoMedia s = keepStereoMedia s"
| "get_setting DisableAttenuation s = disableAttenuation s"
| "get_setting RelaxMicDSP s = relaxMicDSP s"
| "get_setting VerboseLogs s = verboseLogs s"

fun set_setting :: "setting_key \<Rightarrow> bool \<Rightarrow> settings \<Rightarrow> settings" where
  "set_setting ForceModeNormalOnWired v s = s\<lparr>forceModeNormalOnWired := v\<rparr>"
| "set_setting KeepStereoMedia v s = s\<lparr>keepStereoMedia := v\<rparr>"
| "set_setting DisableAttenuation v s = s\<lparr>disableAttenuation := v\<rparr>"
| "set_setting RelaxMicDSP v s = s\<lparr>relaxMicDSP := v\<rparr>"
| "set_setting VerboseLogs v s = s\<lparr>verboseLogs := v\<rparr>"

definition settings_tsx_init :: "world \<Rightarrow> world" where
  "settings_tsx_init w =
     (case TelegramCallsSettings w of
        None \<Rightarrow> w\<lparr>TelegramCallsSettings := Some default_settings\<rparr>
      | Some s \<Rightarrow> w)"

definition upd :: "setting_key \<Rightarrow> bool \<Rightarrow> world \<Rightarrow> world" where
  "upd k v w = w\<lparr>TelegramCallsSettings := map_option (set_setting k v) (TelegramCallsSettings w)\<rparr>"


section \<open>Observing a run\<close>

text \<open>
  The events a run added to the trace, and the shape of a run that did nothing but
  append events: calls of host functions at the call sites named in \<open>S\<close>, and log lines.
\<close>

definition new_events :: "world \<Rightarrow> world \<Rightarrow> event list" where
  "new_events w w' = drop (length (trace w)) (trace w')"

fun host_event :: "string set \<Rightarrow> event \<Rightarrow> bool" where
  "host_event S (Invoke s this f args) = (s \<in> S)"
| "host_event S (ConsoleLog msg) = True"
| "host_event S (Ran k) = False"
| "host_event S (Reverted un) = False"

definition within :: "string set \<Rightarrow> world \<Rightarrow> world \<Rightarrow> bool" where
  "within S w w' =
     (w' = w\<lparr>trace := trace w @ new_events w w'\<rparr> \<and> list_all (host_event S) (new_events w w'))"

text \<open>The call-site names of the host calls in a list of events.\<close>

fun sites :: "event list \<Rightarrow> string list" where
  "sites [] = []"
| "sites (Invoke s this f args # evs) = s # sites evs"
| "sites (ev # evs) = sites evs"

text \<open>The host calls themselves, without log lines and ghost events.\<close>

fun host_calls :: "event list \<Rightarrow> event list" where
  "host_calls [] = []"
| "host_calls (Invoke s this f args # evs) = Invoke s this f args # host_calls evs"
| "host_calls (ev # evs) = host_calls evs"

text \<open>How often a policy action was entered, and which reverts were run.\<close>

fun runs_of :: "hook \<Rightarrow> event list \<Rightarrow> nat" where
  "runs_of k [] = 0"
| "runs_of k (Ran k' # evs) = (if k' = k then Suc (runs_of k evs) else runs_of k evs)"
| "runs_of k (ev # evs) = runs_of k evs"

fun reverts_of :: "event list \<Rightarrow> unpatch list" where
  "reverts_of [] = []"
| "reverts_of (Reverted un # evs) = un # reverts_of evs"
| "reverts_of (ev # evs) = reverts_of evs"

text \<open>The six module-level handles.\<close>

definition handles :: "world \<Rightarrow> jsval \<times> jsval \<times> jsval \<times> jsval \<times> jsval \<times> jsval" where
  "handles w =
     (VoiceStore w, MediaEngine w, AttenuationStore w, AudioManagerNative w, DeviceManager w,
      VoiceConnection w)"

text \<open>
  The call-site names that belong to each policy action, and the names a run of
  \<open>onCallStart\<close>, of \<open>onCallEnd\<close> and of the watchdog callback can use under given
  settings. \<open>preferStereoOutput\<close> searches the registry, which may call the host's
  \<open>getModules\<close> accessor.
\<close>

definition attenuation_sites :: "string set" where
  "attenuation_sites = {''setAttenuation''}"

definition stereo_sites :: "string set" where
  "stereo_sites = {''setChannelCount'', ''setSampleRate''}"

definition mic_dsp_sites :: "string set" where
  "mic_dsp_sites =
     {''setEchoCancellation'', ''setNoiseSuppression'', ''setAutomaticGainControl'',
      ''setOpusEncoderEnableFEC'', ''setOpusBitrate''}"

definition routing_sites :: "string set" where
  "routing_sites = {''isHeadsetConnected'', ''setMode''}"

definition discovery_sites :: "string set" where
  "discovery_sites = {''getModules''}"

definition start_sites :: "settings \<Rightarrow> string set" where
  "start_sites s =
     (if disableAttenuation s then attenuation_sites else {}) \<union>
     (if keepStereoMedia s then discovery_sites \<union> stereo_sites else {}) \<union>
     (if relaxMicDSP s then mic_dsp_sites else {}) \<union>
     (if forceModeNormalOnWired s then routing_sites else {})"

definition end_sites :: "settings \<Rightarrow> string set" where
  "end_sites s =
     (if relaxMicDSP s
      then {''setEchoCancellation'', ''setNoiseSuppression'', ''setAutomaticGainControl''}
      else {})"

definition tick_sites :: "settings \<Rightarrow> string set" where
  "tick_sites s =
     {''isInCall''} \<union>
     (if disableAttenuation s then attenuation_sites else {}) \<union>
     (if keepStereoMedia s then discovery_sites \<union> stereo_sites else {})"

text \<open>A run that left everything but the trace as it was.\<close>

definition extends :: "world \<Rightarrow> world \<Rightarrow> bool" where
  "extends w w' = (w' = w\<lparr>trace := trace w @ new_events w w'\<rparr>)"

section \<open>What the signature search returns\<close>

text \<open>
  The values one module record offers to the search, in the order the loop looks at
  them: its export (\<open>mod?.exports ?? mod\<close>) when that is a non-null value of type
  object, then the \<open>default\<close> of that export. A record whose \<open>exports\<close> getter throws
  offers nothing; an export whose \<open>default\<close> getter throws offers only itself.
\<close>

definition candidates :: "heap \<Rightarrow> jsval \<Rightarrow> jsval list" where
  "candidates h md =
     (case opt_get h md ''exports'' of
        Inl e \<Rightarrow> []
      | Inr x \<Rightarrow>
          (let exp = coalesce x md in
           if truthy exp \<and> typeof_object exp
           then (case get h exp ''default'' of Inl e \<Rightarrow> [exp] | Inr d \<Rightarrow> [exp, d])
           else []))"

definition first_of :: "(jsval \<Rightarrow> bool) \<Rightarrow> jsval list \<Rightarrow> jsval" where
  "first_of P vs = (case find P vs of None \<Rightarrow> JNull | Some v \<Rightarrow> v)"

text \<open>
  The test as the specification words it: the object's own property set is a superset
  of the required members.
\<close>

fun own_superset :: "heap \<Rightarrow> string list \<Rightarrow> jsval \<Rightarrow> bool" where
  "own_superset h props (JObj r) = list_all (own_has (the_obj h r)) props"
| "own_superset h props v = False"

definition spec_findByProps :: "heap \<Rightarrow> string list \<Rightarrow> jsval list \<Rightarrow> jsval" where
  "spec_findByProps h props mods =
     first_of (own_superset h props) (concat (map (candidates h) mods))"

text \<open>
  The test the code makes: a non-null value of type object on which every required
  member is found by \<open>in\<close>, own or inherited.
\<close>

definition in_superset :: "heap \<Rightarrow> string list \<Rightarrow> jsval \<Rightarrow> bool" where
  "in_superset h props v = (truthy v \<and> typeof_object v \<and> every_in h props v = Inr True)"

section \<open>A host to run the plugin against\<close>

text \<open>
  A small registry in the shape the finders expect: \<open>globalThis.modules\<close> is an array of
  module records. The first record has a lazy \<open>exports\<close> getter that throws. The voice
  store is a class instance, its methods on the prototype. The attenuation store is a
  \<open>default\<close> export.
\<close>

definition plain :: "(string \<times> jsprop) list \<Rightarrow> jsobj" where
  "plain ps = \<lparr>own = ps, inherited = [], elems = None, frozen = False\<rparr>"

definition instance_with :: "(string \<times> jsprop) list \<Rightarrow> jsobj" where
  "instance_with ps = \<lparr>own = [], inherited = ps, elems = None, frozen = False\<rparr>"

definition array_of :: "jsval list \<Rightarrow> jsobj" where
  "array_of xs = \<lparr>own = [], inherited = [], elems = Some xs, frozen = False\<rparr>"

definition fn_prop :: "string \<Rightarrow> ref \<Rightarrow> string \<times> jsprop" where
  "fn_prop n f = (n, Data (JFun f))"

definition demo_heap :: heap where
  "demo_heap = map_of
     [(0, plain [(''modules'', Data (JObj 1))]),
      (1, array_of [JObj 2, JObj 3, JObj 4, JObj 5, JObj 6, JObj 7]),
      (2, plain [(''exports'', ThrowingGetter (JStr ''not ready''))]),
      (3, plain [(''exports'', Data (JObj 13))]),
      (4, plain [(''exports'', Data (JObj 14))]),
      (5, plain [(''exports'', Data (JObj 15))]),
      (6, plain [(''exports'', Data (JObj 16))]),
      (7, plain [(''exports'', Data (JObj 17))]),
      (13, instance_with [fn_prop ''getCurrentVoiceChannelId'' 100, fn_prop ''isInCall'' 101]),
      (14, plain [(''default'', Data (JObj 24))]),
      (24, plain [fn_prop ''getAttenuation'' 120, fn_prop ''setAttenuation'' 121]),
      (15, plain [fn_prop ''joinCall'' 130, fn_prop ''leaveCall'' 131]),
      (16, plain [fn_prop ''setChannelCount'' 140, fn_prop ''setSampleRate'' 141]),
      (17, plain [fn_prop ''setSelfMute'' 110, fn_prop ''setInputVolume'' 111,
                  fn_prop ''setNoiseSuppression'' 112, fn_prop ''setEchoCancellation'' 113])]"

text \<open>
  \<open>isInCall\<close> answers \<open>true\<close>, \<open>joinCall\<close> resolves, \<open>leaveCall\<close> rejects,
  every other host function returns \<open>undefined\<close>.
\<close>

definition demo_respond :: "nat \<Rightarrow> ref \<Rightarrow> jsval \<Rightarrow> jsval list \<Rightarrow> jsval + jsval" where
  "demo_respond t f this args =
     (if f = 101 then Inr (JBool True)
      else if f = 130 then Inr (ResolvedPromise (JStr ''joined''))
      else if f = 131 then Inr (RejectedPromise (JStr ''hangup failed''))
      else Inr JUndefined)"

definition demo_world :: world where
  "demo_world =
     \<lparr>heap = demo_heap, globalThis = 0, respond = demo_respond, timers = [], trace = [],
      Settings = default_settings,
      VoiceStore = JObj 13, MediaEngine = JObj 17, AttenuationStore = JObj 24,
      AudioManagerNative = JNull, DeviceManager = JNull, VoiceConnection = JObj 15,
      patches = [], intervalId = None, TelegramCallsSettings = None\<rparr>"


text \<open>
  The same host with a connection controller of the generic kind, a class instance
  with \<open>join\<close>, \<open>leave\<close> and \<open>setLocalMute\<close> on its prototype.
\<close>

definition generic_world :: world where
  "generic_world =
     demo_world
       \<lparr>heap := demo_heap(18 \<mapsto> instance_with [fn_prop ''join'' 132, fn_prop ''leave'' 133,
                                                 fn_prop ''setLocalMute'' 134]),
        VoiceConnection := JObj 18\<rparr>"

text \<open>The same host while no call is on: \<open>isInCall\<close> answers \<open>false\<close>.\<close>

definition idle_world :: world where
  "idle_world = demo_world\<lparr>respond := (\<lambda>t f this args. Inr (JBool False))\<rparr>"

text \<open>
  The same host after it replaced the export of the sixth module record by a new
  player object; the module-level handles are those bound before.
\<close>

definition swapped_world :: world where
  "swapped_world =
     demo_world
       \<lparr>heap := demo_heap(6 \<mapsto> plain [(''exports'', Data (JObj 26))],
                           26 \<mapsto> plain [fn_prop ''setChannelCount'' 240,
                                           fn_prop ''setSampleRate'' 241])\<rparr>"

text \<open>The demo host with one setting switched off, and with all of them off.\<close>

definition no_attenuation_world :: world where
  "no_attenuation_world = demo_world\<lparr>Settings := default_settings\<lparr>disableAttenuation := False\<rparr>\<rparr>"

definition all_off_world :: world where
  "all_off_world =
     demo_world\<lparr>Settings := \<lparr>forceModeNormalOnWired = False, keepStereoMedia = False,
                              disableAttenuation = False, relaxMicDSP = False,
                              verboseLogs = False\<rparr>\<rparr>"

text \<open>
  The demo host after a load, with one more revert in front whose target the host has
  frozen since: that revert throws.
\<close>

definition stuck_world :: world where
  "stuck_world =
     demo_world
       \<lparr>heap := demo_heap
          (15 \<mapsto> plain [(''joinCall'', Data (Wrapper CallStartHook (JFun 130))),
                          (''leaveCall'', Data (Wrapper CallEndHook (JFun 131)))],
           30 \<mapsto> \<lparr>own = [(''join'', Data (Wrapper CallStartHook (JFun 132)))], inherited = [],
                    elems = None, frozen = True\<rparr>),
        patches := [Unpatch (JObj 30) ''join'' (JFun 132),
                    Unpatch (JObj 15) ''joinCall'' (JFun 130),
                    Unpatch (JObj 15) ''leaveCall'' (JFun 131)]\<rparr>"

text \<open>The demo host when no voice store was found at load.\<close>

definition unbound_world :: world where
  "unbound_world = demo_world\<lparr>VoiceStore := JNull\<rparr>"

text \<open>The demo host before \<open>index.ts\<close> is evaluated: no handle is bound yet.\<close>

definition fresh_world :: world where
  "fresh_world =
     demo_world\<lparr>VoiceStore := JUndefined, MediaEngine := JUndefined,
                 AttenuationStore := JUndefined, AudioManagerNative := JUndefined,
                 DeviceManager := JUndefined, VoiceConnection := JUndefined\<rparr>"

section \<open>Runs that only call the host\<close>

lemma new_events_same [simp]: "new_events w w = []"
  by (simp add: new_events_def)

lemma new_events_append [simp]: "new_events w (w\<lparr>trace := trace w @ evs\<rparr>) = evs"
  by (simp add: new_events_def)

lemma within_iff:
  "within S w w' \<longleftrightarrow> (\<exists>evs. w' = w\<lparr>trace := trace w @ evs\<rparr> \<and> list_all (host_event S) evs)"
proof
  assume "within S w w'"
  then show "\<exists>evs. w' = w\<lparr>trace := trace w @ evs\<rparr> \<and> list_all (host_event S) evs"
    unfolding within_def by blast
next
  assume "\<exists>evs. w' = w\<lparr>trace := trace w @ evs\<rparr> \<and> list_all (host_event S) evs"
  then obtain evs where "w' = w\<lparr>trace := trace w @ evs\<rparr>" "list_all (host_event S) evs" by blast
  then show "within S w w'" by (simp add: within_def)
qed

lemma within_refl [simp]: "within S w w"
  by (simp add: within_def)

lemma within_trans:
  assumes "within S w w'" and "within S w' w''"
  shows "within S w w''"
proof -
  from assms(1) obtain e1 where 1: "w' = w\<lparr>trace := trace w @ e1\<rparr>" "list_all (host_event S) e1"
    by (auto simp: within_iff)
  from assms(2) obtain e2 where 2: "w'' = w'\<lparr>trace := trace w' @ e2\<rparr>" "list_all (host_event S) e2"
    by (auto simp: within_iff)
  have "w'' = w\<lparr>trace := trace w @ (e1 @ e2)\<rparr>" using 1(1) 2(1) by simp
  moreover have "list_all (host_event S) (e1 @ e2)" using 1(2) 2(2) by simp
  ultimately show ?thesis unfolding within_iff by blast
qed

lemma host_event_mono: "S \<subseteq> T \<Longrightarrow> host_event S ev \<Longrightarrow> host_event T ev"
  by (cases ev) auto

lemma within_mono:
  assumes "within S w w'" and "S \<subseteq> T"
  shows "within T w w'"
  using assms unfolding within_def list_all_iff by (blast intro: host_event_mono)

lemma within_emit: "host_event S ev \<Longrightarrow> within S w (emit ev w)"
  by (simp add: within_def emit_def)

lemma within_log [simp]: "within S w (log msg w)"
  by (simp add: log_def within_emit)

lemma within_frame:
  assumes "within S w w'"
  shows "heap w' = heap w" and "Settings w' = Settings w" and "handles w' = handles w"
    and "patches w' = patches w" and "timers w' = timers w" and "intervalId w' = intervalId w"
    and "respond w' = respond w" and "globalThis w' = globalThis w"
    and "TelegramCallsSettings w' = TelegramCallsSettings w"
proof -
  from assms obtain evs where "w' = w\<lparr>trace := trace w @ evs\<rparr>" by (auto simp: within_iff)
  then show "heap w' = heap w" "Settings w' = Settings w" "handles w' = handles w"
    "patches w' = patches w" "timers w' = timers w" "intervalId w' = intervalId w"
    "respond w' = respond w" "globalThis w' = globalThis w"
    "TelegramCallsSettings w' = TelegramCallsSettings w"
    by (simp_all add: handles_def)
qed

lemma within_call_fn: "site \<in> S \<Longrightarrow> within S w (snd (call_fn site this f args w))"
  by (cases f) (simp_all add: call_fn_def within_emit)

lemma within_call_method: "m \<in> S \<Longrightarrow> within S w (snd (call_method obj m args w))"
  by (simp add: call_method_def within_call_fn split: sum.splits)

lemma within_call_method_opt: "m \<in> S \<Longrightarrow> within S w (snd (call_method_opt obj m args w))"
  by (simp add: call_method_opt_def within_call_fn split: sum.splits)

lemma within_opt_call_method_opt:
  "m \<in> S \<Longrightarrow> within S w (snd (opt_call_method_opt obj m args w))"
  by (simp add: opt_call_method_opt_def within_call_fn split: sum.splits)

lemma snd_discard: "snd (discard c w) = snd (c w)"
  by (simp add: discard_def split: prod.splits sum.splits)

lemma within_seq:
  assumes "\<And>s w. s \<in> set ss \<Longrightarrow> within S w (snd (s w))"
  shows "within S w (snd (seq ss w))"
  using assms
proof (induction ss arbitrary: w)
  case Nil
  show ?case by simp
next
  case (Cons s ss)
  have head: "within S w (snd (s w))" using Cons.prems by simp
  show ?case
  proof (cases "s w")
    case (Pair r w')
    show ?thesis
    proof (cases r)
      case None
      have "within S w' (snd (seq ss w'))" using Cons.IH Cons.prems by simp
      with head Pair None show ?thesis by (auto intro: within_trans)
    next
      case (Some e)
      with head Pair show ?thesis by simp
    qed
  qed
qed

lemma within_try_catch:
  assumes "within S w (snd (body w))" and "\<And>e w'. within S w' (handler e w')"
  shows "within S w (try_catch body handler w)"
proof (cases "body w")
  case (Pair r w')
  with assms(1) have b: "within S w w'" by simp
  show ?thesis
  proof (cases r)
    case None
    with Pair b show ?thesis by (simp add: try_catch_def)
  next
    case (Some e)
    with Pair have "try_catch body handler w = handler e w'" by (simp add: try_catch_def)
    with b assms(2) [of w' e] show ?thesis by (auto intro: within_trans)
  qed
qed

lemma within_log_step [simp]: "within S w (snd (log_step msg w))"
  by (simp add: log_step_def)

lemma within_call_if_present:
  "m \<in> S \<Longrightarrow> within S w (snd (call_if_present obj m args w))"
  by (simp add: call_if_present_def snd_discard within_call_method split: sum.splits)

lemma within_unless_missing:
  assumes "\<And>s w. s \<in> set rest \<Longrightarrow> within S w (snd (s w))"
  shows "within S w (snd (unless_missing obj m rest w))"
  using within_seq [of rest S w] assms
  by (simp add: unless_missing_def split: sum.splits)

lemma within_ensureMediaStreamNotDucked:
  "''setAttenuation'' \<in> S \<Longrightarrow> within S w (ensureMediaStreamNotDucked w)"
  unfolding ensureMediaStreamNotDucked_def
  by (intro within_try_catch within_unless_missing)
     (auto simp: snd_discard within_call_method)

lemma within_safeSetAudioModeNormal:
  "''setMode'' \<in> S \<Longrightarrow> within S w (safeSetAudioModeNormal w)"
  unfolding safeSetAudioModeNormal_def
  by (intro within_try_catch within_unless_missing)
     (auto simp: snd_discard within_call_method)

lemma sites_subset: "list_all (host_event S) evs \<Longrightarrow> set (sites evs) \<subseteq> S"
  by (induction evs rule: sites.induct) auto

lemma within_sites: "within S w w' \<Longrightarrow> set (sites (new_events w w')) \<subseteq> S"
  by (simp add: within_def sites_subset)

lemma getModules_world:
  "snd (getModules w) = w \<or>
   (\<exists>r. snd (getModules w) = snd (opt_call_method_opt r ''getModules'' [] w))"
proof (cases "get (heap w) (JObj (globalThis w)) ''modules''")
  case (Inl e)
  then show ?thesis by (simp add: getModules_def)
next
  case c1: (Inr c1)
  show ?thesis
  proof (cases "get (heap w) (JObj (globalThis w)) ''__r''")
    case (Inl e)
    with c1 show ?thesis by (simp add: getModules_def)
  next
    case r: (Inr r)
    obtain res w1 where q: "opt_call_method_opt r ''getModules'' [] w = (res, w1)"
      by (cases "opt_call_method_opt r ''getModules'' [] w")
    have "snd (getModules w) = w1"
      using c1 r q by (simp add: getModules_def Let_def split: sum.splits)
    with q show ?thesis by (metis snd_conv)
  qed
qed

lemma within_getModules: "''getModules'' \<in> S \<Longrightarrow> within S w (snd (getModules w))"
  using getModules_world [of w] within_opt_call_method_opt [of "''getModules''" S w]
  by auto

lemma within_findByProps: "''getModules'' \<in> S \<Longrightarrow> within S w (snd (findByProps props w))"
  using within_getModules [of S w]
  by (auto simp: findByProps_def split: sum.splits prod.splits)

lemma within_or_find: "''getModules'' \<in> S \<Longrightarrow> within S w (snd (or_find a props w))"
  by (simp add: or_find_def within_findByProps)

lemma within_find_player: "''getModules'' \<in> S \<Longrightarrow> within S w (snd (find_player w))"
proof -
  assume g: "''getModules'' \<in> S"
  obtain r w1 where f: "findByProps [''setChannelCount'', ''setSampleRate''] w = (r, w1)"
    by (cases "findByProps [''setChannelCount'', ''setSampleRate''] w")
  with within_findByProps [OF g, of w "[''setChannelCount'', ''setSampleRate'']"]
  have 1: "within S w w1" by simp
  show ?thesis
  proof (cases r)
    case (Inl e)
    with f 1 show ?thesis by (simp add: find_player_def)
  next
    case (Inr p)
    with f have "snd (find_player w) = snd (or_find p [''setOutputConfig''] w1)"
      by (simp add: find_player_def)
    with 1 within_or_find [OF g, of w1] show ?thesis by (auto intro: within_trans)
  qed
qed

lemma within_preferStereoOutput:
  assumes "discovery_sites \<union> stereo_sites \<subseteq> S"
  shows "within S w (preferStereoOutput w)"
  unfolding preferStereoOutput_def
proof (rule within_try_catch)
  have g: "''getModules'' \<in> S" and c: "''setChannelCount'' \<in> S" and r: "''setSampleRate'' \<in> S"
    using assms by (auto simp: discovery_sites_def stereo_sites_def)
  obtain res w1 where f: "find_player w = (res, w1)" by (cases "find_player w")
  with within_find_player [OF g, of w] have 1: "within S w w1" by simp
  show "within S w (snd (case find_player w of
          (Inl e, w1) \<Rightarrow> (Some e, w1)
        | (Inr Player, w1) \<Rightarrow>
            seq [call_if_present Player ''setChannelCount'' [JNum 2],
                 call_if_present Player ''setSampleRate'' [JNum 48000],
                 log_step ''Preferred stereo, 48 kHz output''] w1))"
  proof (cases res)
    case (Inl e)
    with f 1 show ?thesis by simp
  next
    case (Inr Player)
    have "within S w1 (snd (seq [call_if_present Player ''setChannelCount'' [JNum 2],
                 call_if_present Player ''setSampleRate'' [JNum 48000],
                 log_step ''Preferred stereo, 48 kHz output''] w1))"
      by (rule within_seq) (auto simp: within_call_if_present c r)
    with Inr f 1 show ?thesis by (auto intro: within_trans)
  qed
next
  show "within S w' (log ''Stereo preference failed'' w')" for w' by simp
qed

lemma within_relaxMicProcessing:
  assumes "mic_dsp_sites \<subseteq> S"
  shows "within S w (relaxMicProcessing w)"
proof (cases "truthy (MediaEngine w)")
  case False
  then show ?thesis by (simp add: relaxMicProcessing_def)
next
  case True
  have "within S w (try_catch
        (seq [discard (call_method_opt (MediaEngine w) ''setEchoCancellation'' [JBool False]),
              discard (call_method_opt (MediaEngine w) ''setNoiseSuppression'' [JBool False]),
              discard (call_method_opt (MediaEngine w) ''setAutomaticGainControl'' [JBool False]),
              discard (call_method_opt (MediaEngine w) ''setOpusEncoderEnableFEC'' [JBool True]),
              discard (call_method_opt (MediaEngine w) ''setOpusBitrate'' [JNum 64000]),
              log_step ''Relaxed mic DSP and set bitrate''])
        (\<lambda>e. log ''Mic DSP tuning failed'') w)"
    using assms
    by (intro within_try_catch within_seq)
       (auto simp: snd_discard within_call_method_opt mic_dsp_sites_def)
  with True show ?thesis by (simp add: relaxMicProcessing_def)
qed

lemma within_isWiredHeadphones:
  "''isHeadsetConnected'' \<in> S \<Longrightarrow> within S w (snd (isWiredHeadphones w))"
  using within_call_method [of "''isHeadsetConnected''" S w "DeviceManager w" "[]"]
  by (auto simp: isWiredHeadphones_def split: sum.splits prod.splits)

lemma within_mic_restore:
  assumes "end_sites (Settings w) \<subseteq> S"
  shows "within S w (try_catch
       (\<lambda>w. if relaxMicDSP (Settings w) \<and> truthy (MediaEngine w)
             then seq [discard (call_method_opt (MediaEngine w) ''setEchoCancellation'' [JBool True]),
                       discard (call_method_opt (MediaEngine w) ''setNoiseSuppression'' [JBool True]),
                       discard (call_method_opt (MediaEngine w) ''setAutomaticGainControl'' [JBool True]),
                       log_step ''Restored mic DSP defaults''] w
             else (None, w))
       (\<lambda>e w. w) w)"
proof (rule within_try_catch)
  show "within S w (snd (if relaxMicDSP (Settings w) \<and> truthy (MediaEngine w)
             then seq [discard (call_method_opt (MediaEngine w) ''setEchoCancellation'' [JBool True]),
                       discard (call_method_opt (MediaEngine w) ''setNoiseSuppression'' [JBool True]),
                       discard (call_method_opt (MediaEngine w) ''setAutomaticGainControl'' [JBool True]),
                       log_step ''Restored mic DSP defaults''] w
             else (None, w)))"
  proof (cases "relaxMicDSP (Settings w) \<and> truthy (MediaEngine w)")
    case False
    then show ?thesis by auto
  next
    case True
    then have s: "''setEchoCancellation'' \<in> S" "''setNoiseSuppression'' \<in> S"
      "''setAutomaticGainControl'' \<in> S" using assms by (auto simp: end_sites_def)
    have "within S w (snd (seq [discard (call_method_opt (MediaEngine w) ''setEchoCancellation'' [JBool True]),
                       discard (call_method_opt (MediaEngine w) ''setNoiseSuppression'' [JBool True]),
                       discard (call_method_opt (MediaEngine w) ''setAutomaticGainControl'' [JBool True]),
                       log_step ''Restored mic DSP defaults''] w))"
      by (rule within_seq) (auto simp: snd_discard within_call_method_opt s)
    with True show ?thesis by simp
  qed
next
  show "within S w' w'" for w' by simp
qed

lemma trace_emit: "emit ev w = w\<lparr>trace := trace w @ [ev]\<rparr>"
  by (simp add: emit_def)

lemma within_after_emit:
  assumes "within S (emit ev w) w'"
  shows "\<exists>evs. w' = w\<lparr>trace := trace w @ ev # evs\<rparr> \<and> list_all (host_event S) evs"
proof -
  from assms obtain evs where "w' = (emit ev w)\<lparr>trace := trace (emit ev w) @ evs\<rparr>"
    "list_all (host_event S) evs" by (auto simp: within_iff)
  then show ?thesis by (auto simp: emit_def)
qed

lemma onCallEnd_shape:
  "\<exists>evs. onCallEnd w = w\<lparr>trace := trace w @ Ran CallEndHook # evs\<rparr>
         \<and> list_all (host_event (end_sites (Settings w))) evs"
proof -
  have "end_sites (Settings (emit (Ran CallEndHook) w)) \<subseteq> end_sites (Settings w)"
    by (simp add: emit_def)
  from within_mic_restore [OF this]
  have "within (end_sites (Settings w)) (emit (Ran CallEndHook) w) (onCallEnd w)"
    by (simp add: onCallEnd_def)
  then show ?thesis by (rule within_after_emit)
qed

lemma onCallStart_within:
  "within (start_sites (Settings w)) (emit (Ran CallStartHook) w) (onCallStart w)"
proof -
  let ?S = "start_sites (Settings w)"
  define w0 where "w0 = emit (Ran CallStartHook) w"
  define w1 where "w1 = (if disableAttenuation (Settings w0) then ensureMediaStreamNotDucked w0 else w0)"
  define w2 where "w2 = (if keepStereoMedia (Settings w1) then preferStereoOutput w1 else w1)"
  define w3 where "w3 = (if relaxMicDSP (Settings w2) then relaxMicProcessing w2 else w2)"
  define w4 where "w4 = (if forceModeNormalOnWired (Settings w3)
         then (case isWiredHeadphones w3 of (b, w4) \<Rightarrow> if b then safeSetAudioModeNormal w4 else w4)
         else w3)"
  have res: "onCallStart w = w4"
    by (simp add: onCallStart_def Let_def w0_def w1_def w2_def w3_def w4_def)
  have s0: "Settings w0 = Settings w" by (simp add: w0_def emit_def)
  have 1: "within ?S w0 w1"
    unfolding w1_def using s0
    by (auto intro!: within_ensureMediaStreamNotDucked simp: start_sites_def attenuation_sites_def)
  have s1: "Settings w1 = Settings w" using within_frame(2) [OF 1] s0 by simp
  have 2: "within ?S w1 w2"
    unfolding w2_def using s1
    by (auto intro!: within_preferStereoOutput simp: start_sites_def)
  have s2: "Settings w2 = Settings w" using within_frame(2) [OF 2] s1 by simp
  have 3: "within ?S w2 w3"
    unfolding w3_def using s2
    by (auto intro!: within_relaxMicProcessing simp: start_sites_def)
  have s3: "Settings w3 = Settings w" using within_frame(2) [OF 3] s2 by simp
  have 4: "within ?S w3 w4"
  proof (cases "forceModeNormalOnWired (Settings w)")
    case False
    with s3 show ?thesis by (simp add: w4_def)
  next
    case True
    then have h: "''isHeadsetConnected'' \<in> ?S" and m: "''setMode'' \<in> ?S"
      by (auto simp: start_sites_def routing_sites_def)
    obtain b w' where iw: "isWiredHeadphones w3 = (b, w')" by (cases "isWiredHeadphones w3")
    with within_isWiredHeadphones [OF h, of w3] have a: "within ?S w3 w'" by simp
    have "w4 = (if b then safeSetAudioModeNormal w' else w')"
      using True s3 iw by (simp add: w4_def)
    with a within_safeSetAudioModeNormal [OF m, of w'] show ?thesis
      by (auto intro: within_trans)
  qed
  from 1 2 3 4 have "within ?S w0 w4" by (blast intro: within_trans)
  with res show ?thesis by (simp add: w0_def)
qed

lemma onCallStart_shape:
  "\<exists>evs. onCallStart w = w\<lparr>trace := trace w @ Ran CallStartHook # evs\<rparr>
         \<and> list_all (host_event (start_sites (Settings w))) evs"
  using onCallStart_within by (rule within_after_emit)

lemma watchdog_tick_within: "within (tick_sites (Settings w)) w (snd (watchdog_tick w))"
proof -
  let ?S = "tick_sites (Settings w)"
  have i: "''isInCall'' \<in> ?S" by (simp add: tick_sites_def)
  obtain r w1 where q: "opt_call_method_opt (VoiceStore w) ''isInCall'' [] w = (r, w1)"
    by (cases "opt_call_method_opt (VoiceStore w) ''isInCall'' [] w")
  with within_opt_call_method_opt [OF i, of w "VoiceStore w" "[]"] have 1: "within ?S w w1" by simp
  have s1: "Settings w1 = Settings w" using within_frame(2) [OF 1] .
  show ?thesis
  proof (cases r)
    case (Inl e)
    with q 1 show ?thesis by (simp add: watchdog_tick_def)
  next
    case (Inr v)
    show ?thesis
    proof (cases "truthy v")
      case False
      with Inr q 1 show ?thesis by (simp add: watchdog_tick_def)
    next
      case True
      define w2 where "w2 = (if disableAttenuation (Settings w1) then ensureMediaStreamNotDucked w1 else w1)"
      define w3 where "w3 = (if keepStereoMedia (Settings w2) then preferStereoOutput w2 else w2)"
      have res: "snd (watchdog_tick w) = w3"
        using True Inr q by (simp add: watchdog_tick_def Let_def w2_def w3_def)
      have 2: "within ?S w1 w2"
        unfolding w2_def using s1
        by (auto intro!: within_ensureMediaStreamNotDucked simp: tick_sites_def attenuation_sites_def)
      have s2: "Settings w2 = Settings w" using within_frame(2) [OF 2] s1 by simp
      have 3: "within ?S w2 w3"
        unfolding w3_def using s2
        by (auto intro!: within_preferStereoOutput simp: tick_sites_def)
      from 1 2 3 res show ?thesis by (auto intro: within_trans)
    qed
  qed
qed

section \<open>Runs that only extend the trace\<close>

lemma extends_iff: "extends w w' \<longleftrightarrow> (\<exists>evs. w' = w\<lparr>trace := trace w @ evs\<rparr>)"
proof
  assume "extends w w'"
  then show "\<exists>evs. w' = w\<lparr>trace := trace w @ evs\<rparr>" unfolding extends_def by blast
next
  assume "\<exists>evs. w' = w\<lparr>trace := trace w @ evs\<rparr>"
  then obtain evs where "w' = w\<lparr>trace := trace w @ evs\<rparr>" by blast
  then show "extends w w'" by (simp add: extends_def)
qed

lemma extends_refl [simp]: "extends w w"
  by (simp add: extends_def)

lemma extends_trans:
  assumes "extends w w'" and "extends w' w''"
  shows "extends w w''"
proof -
  from assms(1) obtain e1 where 1: "w' = w\<lparr>trace := trace w @ e1\<rparr>" by (auto simp: extends_iff)
  from assms(2) obtain e2 where 2: "w'' = w'\<lparr>trace := trace w' @ e2\<rparr>" by (auto simp: extends_iff)
  have "w'' = w\<lparr>trace := trace w @ (e1 @ e2)\<rparr>" using 1 2 by simp
  then show ?thesis unfolding extends_iff by blast
qed

lemma within_extends: "within S w w' \<Longrightarrow> extends w w'"
  by (simp add: within_def extends_def)

lemma extends_emit [simp]: "extends w (emit ev w)"
  by (simp add: extends_def emit_def)

lemma extends_handles: "extends w w' \<Longrightarrow> handles w' = handles w"
  by (auto simp: extends_iff handles_def)

lemma new_events_trans:
  assumes "extends w w'" and "extends w' w''"
  shows "new_events w w'' = new_events w w' @ new_events w' w''"
proof -
  from assms(1) obtain e1 where 1: "w' = w\<lparr>trace := trace w @ e1\<rparr>" by (auto simp: extends_iff)
  from assms(2) obtain e2 where 2: "w'' = w'\<lparr>trace := trace w' @ e2\<rparr>" by (auto simp: extends_iff)
  show ?thesis using 1 2 by (simp add: new_events_def)
qed

lemma extends_onCallStart: "extends w (onCallStart w)"
  using onCallStart_shape [of w] by (auto simp: extends_iff)

lemma extends_onCallEnd: "extends w (onCallEnd w)"
  using onCallEnd_shape [of w] by (auto simp: extends_iff)

lemma runs_of_host_events: "list_all (host_event S) evs \<Longrightarrow> runs_of k evs = 0"
  by (induction evs rule: runs_of.induct) auto

lemma reverts_of_host_events: "list_all (host_event S) evs \<Longrightarrow> reverts_of evs = []"
  by (induction evs rule: reverts_of.induct) auto

lemma runs_of_append: "runs_of k (xs @ ys) = runs_of k xs + runs_of k ys"
  by (induction xs rule: runs_of.induct) auto

lemma reverts_of_append: "reverts_of (xs @ ys) = reverts_of xs @ reverts_of ys"
  by (induction xs rule: reverts_of.induct) auto

lemma sites_append: "sites (xs @ ys) = sites xs @ sites ys"
  by (induction xs rule: sites.induct) auto

lemma runs_of_onCallEnd:
  "runs_of k (new_events w (onCallEnd w)) = (if k = CallEndHook then 1 else 0)"
proof -
  from onCallEnd_shape [of w] obtain evs where
    "onCallEnd w = w\<lparr>trace := trace w @ Ran CallEndHook # evs\<rparr>"
    "list_all (host_event (end_sites (Settings w))) evs" by blast
  then show ?thesis by (simp add: runs_of_host_events)
qed

lemma runs_of_onCallStart:
  "runs_of k (new_events w (onCallStart w)) = (if k = CallStartHook then 1 else 0)"
proof -
  from onCallStart_shape [of w] obtain evs where
    "onCallStart w = w\<lparr>trace := trace w @ Ran CallStartHook # evs\<rparr>"
    "list_all (host_event (start_sites (Settings w))) evs" by blast
  then show ?thesis by (simp add: runs_of_host_events)
qed

lemma runs_of_onCallEnd_twice:
  "runs_of CallEndHook (new_events w (onCallEnd (onCallEnd w))) = 2"
  using new_events_trans [OF extends_onCallEnd extends_onCallEnd, of w]
  by (simp add: runs_of_append runs_of_onCallEnd)

lemma extends_after_join: "extends w w' \<Longrightarrow> extends w (snd (after_join (r, w')))"
  by (cases r) (auto intro: extends_trans extends_onCallStart)

lemma extends_onCallEnd_twice: "extends w (onCallEnd (onCallEnd w))"
  using extends_onCallEnd extends_onCallEnd by (rule extends_trans)

lemma extends_after_leave: "extends w w' \<Longrightarrow> extends w (snd (after_leave (r, w')))"
  by (cases r) (auto simp: Let_def intro: extends_trans extends_onCallEnd extends_onCallEnd_twice)

lemma extends_run_async: "extends w (snd (run_async f this args w))"
proof (induction f this args w rule: run_async.induct)
  case (2 orig this args w)
  then show ?case
    using extends_after_join [of w "snd (run_async orig this args w)" "fst (run_async orig this args w)"]
    by simp
next
  case (3 orig this args w)
  then show ?case
    using extends_after_leave [of w "snd (run_async orig this args w)" "fst (run_async orig this args w)"]
    by simp
qed simp_all

section \<open>Properties of property access\<close>

lemma map_of_set_own: "map_of (set_own n v kvs) k = (if k = n then Some (Data v) else map_of kvs k)"
  by (induction kvs) auto

lemma write_prop_Inr:
  "write_prop ob n v = Inr ob' \<Longrightarrow> ob' = ob\<lparr>own := set_own n v (own ob)\<rparr> \<and> \<not> frozen ob"
  by (auto simp: write_prop_def split: if_splits option.splits jsprop.splits)

lemma write_prop_read:
  assumes "write_prop ob n v = Inr ob'"
  shows "read_prop ob' k = (if k = n then Inr v else read_prop ob k)"
  using assms
  by (auto simp: write_prop_def read_prop_def map_of_set_own
           split: if_splits option.splits jsprop.splits)

lemma write_prop_again:
  assumes "write_prop ob n v = Inr ob'"
  shows "\<exists>ob''. write_prop ob' n u = Inr ob''"
  using assms
  by (auto simp: write_prop_def map_of_set_own split: if_splits option.splits jsprop.splits)

lemma write_prop_commute:
  assumes "write_prop ob n v = Inr ob1" and "write_prop ob1 m u = Inr ob2"
  shows "\<exists>ob3. write_prop ob2 n x = Inr ob3"
  using assms
  by (auto simp: write_prop_def map_of_set_own split: if_splits option.splits jsprop.splits)

lemma put_Inr:
  assumes "put h obj n v = Inr h'"
  obtains r ob where "obj = JObj r \<or> obj = JFun r" and "write_prop (the_obj h r) n v = Inr ob"
    and "h' = h(r \<mapsto> ob)"
  using assms by (cases obj) (auto split: sum.splits)

lemma put_get:
  assumes "put h obj n v = Inr h'"
  shows "get h' obj k = (if k = n then Inr v else get h obj k)"
  using assms
  by (cases obj) (auto simp: the_obj_def write_prop_read split: sum.splits)

lemma put_again:
  assumes "put h obj n v = Inr h'"
  shows "\<exists>h''. put h' obj n u = Inr h''"
  using assms
  by (cases obj) (auto simp: the_obj_def split: sum.splits dest: write_prop_again [where u = u])

lemma put_commute:
  assumes "put h obj n v = Inr h1" and "put h1 obj m u = Inr h2"
  shows "\<exists>h3. put h2 obj n x = Inr h3"
  using assms
  by (cases obj) (auto simp: the_obj_def split: sum.splits dest: write_prop_commute [where x = x])

section \<open>Installing and reverting\<close>

lemma monkeyPatch_Inr:
  assumes "monkeyPatch obj method patcher h = Inr (un, h1)"
  obtains orig where "get h obj method = Inr orig" and "un = Unpatch obj method orig"
    and "put h obj method (patcher orig) = Inr h1"
  using assms by (auto simp: monkeyPatch_def split: sum.splits)

lemma monkeyPatch_revert:
  assumes "monkeyPatch obj method patcher h = Inr (un, h1)"
  shows "\<exists>orig h2. get h obj method = Inr orig \<and> un = Unpatch obj method orig
           \<and> get h1 obj method = Inr (patcher orig)
           \<and> run_unpatch un h1 = Inr h2 \<and> get h2 obj method = Inr orig
           \<and> (\<forall>k. k \<noteq> method \<longrightarrow> get h2 obj k = get h obj k)"
proof -
  from assms obtain orig where o: "get h obj method = Inr orig" "un = Unpatch obj method orig"
    "put h obj method (patcher orig) = Inr h1" by (rule monkeyPatch_Inr)
  from put_again [OF o(3)] obtain h2 where h2: "put h1 obj method orig = Inr h2" by blast
  show ?thesis using o h2 by (auto simp: put_get)
qed


lemma run_reverts_heap_two:
  assumes "put (heap w) o1 n1 v1 = Inr h1" and "put h1 o2 n2 v2 = Inr h2"
  shows "heap (run_reverts [Unpatch o1 n1 v1, Unpatch o2 n2 v2] w) = h2"
  using assms by (simp add: Let_def emit_def)

lemma patch_pair_reverts:
  assumes pp: "patch_pair j l w = (None, w1)" and jl: "j \<noteq> l"
  shows "\<exists>un1 un2. patches w1 = patches w @ [un1, un2] \<and> VoiceConnection w1 = VoiceConnection w \<and>
           (\<forall>k. get (heap (run_reverts [un1, un2] w1)) (VoiceConnection w) k
                = get (heap w) (VoiceConnection w) k)"
proof -
  let ?vc = "VoiceConnection w"
  from pp obtain un1 ha un2 hb where
    m1: "monkeyPatch ?vc j (Wrapper CallStartHook) (heap w) = Inr (un1, ha)" and
    m2: "monkeyPatch ?vc l (Wrapper CallEndHook) ha = Inr (un2, hb)" and
    w1: "w1 = w\<lparr>heap := hb, patches := patches w @ [un1, un2]\<rparr>"
    by (auto simp: patch_pair_def Let_def split: sum.splits prod.splits)
  from m1 obtain oj where oj: "get (heap w) ?vc j = Inr oj" "un1 = Unpatch ?vc j oj"
    "put (heap w) ?vc j (Wrapper CallStartHook oj) = Inr ha" by (rule monkeyPatch_Inr)
  from m2 obtain ol where ol: "get ha ?vc l = Inr ol" "un2 = Unpatch ?vc l ol"
    "put ha ?vc l (Wrapper CallEndHook ol) = Inr hb" by (rule monkeyPatch_Inr)
  from put_commute [OF oj(3) ol(3)] obtain hc where hc: "put hb ?vc j oj = Inr hc" by blast
  from put_commute [OF ol(3) hc] obtain hd where hd: "put hc ?vc l ol = Inr hd" by blast
  have heap: "heap (run_reverts [un1, un2] w1) = hd"
    using hc hd by (simp add: w1 oj(2) ol(2) Let_def emit_def)
  have "get hd ?vc k = get (heap w) ?vc k" for k
    using jl oj(1) ol(1) by (simp add: put_get [OF hd] put_get [OF hc] put_get [OF ol(3)] put_get [OF oj(3)])
  with heap w1 show ?thesis by simp
qed

lemma patchVoiceJoinLeave_cases:
  assumes "patchVoiceJoinLeave w = (None, w1)"
  shows "w1 = w \<or> patch_pair ''joinCall'' ''leaveCall'' w = (None, w1)
           \<or> patch_pair ''join'' ''leave'' w = (None, w1)"
proof (cases "truthy (VoiceConnection w)")
  case False
  with assms show ?thesis by (simp add: patchVoiceJoinLeave_def)
next
  case True
  show ?thesis
  proof (cases "both_in ''joinCall'' ''leaveCall'' w")
    case (Inl e)
    with True assms show ?thesis by (simp add: patchVoiceJoinLeave_def)
  next
    case explicit: (Inr b)
    show ?thesis
    proof (cases b)
      case True
      with \<open>truthy (VoiceConnection w)\<close> explicit assms show ?thesis
        by (simp add: patchVoiceJoinLeave_def)
    next
      case False
      show ?thesis
      proof (cases "both_in ''join'' ''leave'' w")
        case (Inl e)
        with False \<open>truthy (VoiceConnection w)\<close> explicit assms show ?thesis
          by (simp add: patchVoiceJoinLeave_def)
      next
        case (Inr c)
        with False \<open>truthy (VoiceConnection w)\<close> explicit assms show ?thesis
          by (cases c) (simp_all add: patchVoiceJoinLeave_def)
      qed
    qed
  qed
qed

lemma patchVoiceJoinLeave_reverts:
  assumes "patchVoiceJoinLeave w = (None, w1)"
  shows "get (heap (run_reverts (drop (length (patches w)) (patches w1)) w1)) (VoiceConnection w) k
           = get (heap w) (VoiceConnection w) k"
proof -
  from patchVoiceJoinLeave_cases [OF assms]
  consider (none) "w1 = w" | (explicit) "patch_pair ''joinCall'' ''leaveCall'' w = (None, w1)"
    | (generic) "patch_pair ''join'' ''leave'' w = (None, w1)"
    by blast
  then show ?thesis
  proof cases
    case none
    then show ?thesis by simp
  next
    case explicit
    from patch_pair_reverts [OF this] obtain un1 un2 where
      "patches w1 = patches w @ [un1, un2]"
      "\<forall>k. get (heap (run_reverts [un1, un2] w1)) (VoiceConnection w) k
                = get (heap w) (VoiceConnection w) k" by auto
    then show ?thesis by simp
  next
    case generic
    from patch_pair_reverts [OF this] obtain un1 un2 where
      "patches w1 = patches w @ [un1, un2]"
      "\<forall>k. get (heap (run_reverts [un1, un2] w1)) (VoiceConnection w) k
                = get (heap w) (VoiceConnection w) k" by auto
    then show ?thesis by simp
  qed
qed


text \<open>
  C4. Installing an interception and then running the revert it returned puts back the
  very value that was read from the slot before patching: the revert cannot fail right
  after a successful install, and the slot then reads the original again. The same
  holds for what \<open>patchVoiceJoinLeave\<close> installs on either path
  (\<open>joinCall\<close>/\<open>leaveCall\<close> or \<open>join\<close>/\<open>leave\<close>): after running the reverts it
  pushed, every property of the voice connection reads as it did before.
\<close>

theorem interception_round_trip:
  "(monkeyPatch obj method patcher h = Inr (un, h1) \<longrightarrow>
      (\<exists>orig h2. get h obj method = Inr orig \<and> un = Unpatch obj method orig
         \<and> get h1 obj method = Inr (patcher orig)
         \<and> run_unpatch un h1 = Inr h2 \<and> get h2 obj method = Inr orig))
   \<and> (patchVoiceJoinLeave w = (None, w1) \<longrightarrow>
      get (heap (run_reverts (drop (length (patches w)) (patches w1)) w1)) (VoiceConnection w) k
        = get (heap w) (VoiceConnection w) k)"
  using monkeyPatch_revert patchVoiceJoinLeave_reverts [of w w1 k]
  by blast

lemmas heap_defs = demo_heap_def plain_def instance_with_def array_of_def fn_prop_def
  the_obj_def read_prop_def write_prop_def obj_has_def has_key_def

lemma demo_monkeyPatch:
  "\<exists>h1. monkeyPatch (JObj 13) ''isInCall'' (Wrapper CallStartHook) demo_heap
      = Inr (Unpatch (JObj 13) ''isInCall'' (JFun 101), h1)"
  by (simp add: monkeyPatch_def heap_defs)

lemma demo_patch:
  "\<exists>w1. patchVoiceJoinLeave demo_world = (None, w1)"
  by (simp add: patchVoiceJoinLeave_def both_in_def patch_pair_def monkeyPatch_def demo_world_def heap_defs Let_def)

lemma generic_patch:
  "\<exists>w1. patchVoiceJoinLeave (generic_world) = (None, w1)"
  by (simp add: patchVoiceJoinLeave_def both_in_def patch_pair_def monkeyPatch_def generic_world_def demo_world_def heap_defs Let_def)

theorem interception_round_trip_witness:
  "(\<exists>un h1 h2. monkeyPatch (JObj 13) ''isInCall'' (Wrapper CallStartHook) demo_heap = Inr (un, h1)
       \<and> get h1 (JObj 13) ''isInCall'' = Inr (Wrapper CallStartHook (JFun 101))
       \<and> run_unpatch un h1 = Inr h2 \<and> get h2 (JObj 13) ''isInCall'' = Inr (JFun 101))
   \<and> (\<exists>w1. patchVoiceJoinLeave demo_world = (None, w1)
       \<and> patches w1 = [Unpatch (JObj 15) ''joinCall'' (JFun 130), Unpatch (JObj 15) ''leaveCall'' (JFun 131)]
       \<and> get (heap w1) (JObj 15) ''leaveCall'' = Inr (Wrapper CallEndHook (JFun 131))
       \<and> get (heap (run_reverts (patches w1) w1)) (JObj 15) ''leaveCall'' = Inr (JFun 131))
   \<and> (\<exists>w1. patchVoiceJoinLeave generic_world = (None, w1)
       \<and> patches w1 = [Unpatch (JObj 18) ''join'' (JFun 132), Unpatch (JObj 18) ''leave'' (JFun 133)]
       \<and> get (heap w1) (JObj 18) ''join'' = Inr (Wrapper CallStartHook (JFun 132))
       \<and> get (heap (run_reverts (patches w1) w1)) (JObj 18) ''join'' = Inr (JFun 132))"
proof (intro conjI)
  from demo_monkeyPatch obtain h1 where
    m: "monkeyPatch (JObj 13) ''isInCall'' (Wrapper CallStartHook) demo_heap
          = Inr (Unpatch (JObj 13) ''isInCall'' (JFun 101), h1)" by blast
  from interception_round_trip [of "JObj 13" "''isInCall''" "Wrapper CallStartHook" demo_heap
      "Unpatch (JObj 13) ''isInCall'' (JFun 101)" h1] m
  show "\<exists>un h1 h2. monkeyPatch (JObj 13) ''isInCall'' (Wrapper CallStartHook) demo_heap = Inr (un, h1)
       \<and> get h1 (JObj 13) ''isInCall'' = Inr (Wrapper CallStartHook (JFun 101))
       \<and> run_unpatch un h1 = Inr h2 \<and> get h2 (JObj 13) ''isInCall'' = Inr (JFun 101)"
    by auto
next
  from demo_patch obtain w1 where p: "patchVoiceJoinLeave demo_world = (None, w1)" by blast
  have ps: "patches w1 = [Unpatch (JObj 15) ''joinCall'' (JFun 130), Unpatch (JObj 15) ''leaveCall'' (JFun 131)]"
    and g1: "get (heap w1) (JObj 15) ''leaveCall'' = Inr (Wrapper CallEndHook (JFun 131))"
    using p by (auto simp: patchVoiceJoinLeave_def both_in_def patch_pair_def monkeyPatch_def demo_world_def heap_defs Let_def)
  have "get (heap (run_reverts (patches w1) w1)) (JObj 15) ''leaveCall'' = Inr (JFun 131)"
    using interception_round_trip [of _ _ _ _ _ _ demo_world w1 "''leaveCall''"] p
    by (simp add: demo_world_def heap_defs)
  with p ps g1 show "\<exists>w1. patchVoiceJoinLeave demo_world = (None, w1)
       \<and> patches w1 = [Unpatch (JObj 15) ''joinCall'' (JFun 130), Unpatch (JObj 15) ''leaveCall'' (JFun 131)]
       \<and> get (heap w1) (JObj 15) ''leaveCall'' = Inr (Wrapper CallEndHook (JFun 131))
       \<and> get (heap (run_reverts (patches w1) w1)) (JObj 15) ''leaveCall'' = Inr (JFun 131)"
    by blast
next
  from generic_patch obtain w1 where p: "patchVoiceJoinLeave generic_world = (None, w1)" by blast
  have ps: "patches w1 = [Unpatch (JObj 18) ''join'' (JFun 132), Unpatch (JObj 18) ''leave'' (JFun 133)]"
    and g1: "get (heap w1) (JObj 18) ''join'' = Inr (Wrapper CallStartHook (JFun 132))"
    using p by (auto simp: patchVoiceJoinLeave_def both_in_def patch_pair_def monkeyPatch_def generic_world_def demo_world_def heap_defs Let_def)
  have "get (heap (run_reverts (patches w1) w1)) (JObj 18) ''join'' = Inr (JFun 132)"
    using interception_round_trip [of _ _ _ _ _ _ generic_world w1 "''join''"] p
    by (simp add: generic_world_def demo_world_def heap_defs)
  with p ps g1 show "\<exists>w1. patchVoiceJoinLeave generic_world = (None, w1)
       \<and> patches w1 = [Unpatch (JObj 18) ''join'' (JFun 132), Unpatch (JObj 18) ''leave'' (JFun 133)]
       \<and> get (heap w1) (JObj 18) ''join'' = Inr (Wrapper CallStartHook (JFun 132))
       \<and> get (heap (run_reverts (patches w1) w1)) (JObj 18) ''join'' = Inr (JFun 132)"
    by blast
qed

section \<open>Settings that are off\<close>

lemma sites_onCallStart:
  "set (sites (new_events w (onCallStart w))) \<subseteq> start_sites (Settings w)"
proof -
  from onCallStart_shape [of w] obtain evs where
    "onCallStart w = w\<lparr>trace := trace w @ Ran CallStartHook # evs\<rparr>"
    "list_all (host_event (start_sites (Settings w))) evs" by blast
  then show ?thesis using sites_subset [of "start_sites (Settings w)" evs] by simp
qed

lemma sites_onCallEnd:
  "set (sites (new_events w (onCallEnd w))) \<subseteq> end_sites (Settings w)"
proof -
  from onCallEnd_shape [of w] obtain evs where
    "onCallEnd w = w\<lparr>trace := trace w @ Ran CallEndHook # evs\<rparr>"
    "list_all (host_event (end_sites (Settings w))) evs" by blast
  then show ?thesis using sites_subset [of "end_sites (Settings w)" evs] by simp
qed

lemma sites_watchdog_tick:
  "set (sites (new_events w (snd (watchdog_tick w)))) \<subseteq> tick_sites (Settings w)"
  using watchdog_tick_within by (rule within_sites)

lemmas site_defs = attenuation_sites_def stereo_sites_def mic_dsp_sites_def routing_sites_def
  discovery_sites_def

lemma start_sites_off:
  "\<not> disableAttenuation s \<Longrightarrow> start_sites s \<inter> attenuation_sites = {}"
  "\<not> keepStereoMedia s \<Longrightarrow> start_sites s \<inter> stereo_sites = {}"
  "\<not> relaxMicDSP s \<Longrightarrow> start_sites s \<inter> mic_dsp_sites = {}"
  "\<not> forceModeNormalOnWired s \<Longrightarrow> start_sites s \<inter> routing_sites = {}"
  by (auto simp: start_sites_def site_defs)

lemma tick_sites_off:
  "\<not> disableAttenuation s \<Longrightarrow> tick_sites s \<inter> attenuation_sites = {}"
  "\<not> keepStereoMedia s \<Longrightarrow> tick_sites s \<inter> stereo_sites = {}"
  "tick_sites s \<inter> mic_dsp_sites = {}"
  "tick_sites s \<inter> routing_sites = {}"
  by (auto simp: tick_sites_def site_defs)

lemma disjoint_subset: "A \<subseteq> B \<Longrightarrow> B \<inter> C = {} \<Longrightarrow> A \<inter> C = {}"
  by blast

text \<open>
  C7. A setting that is switched off keeps its action away from the host, on call start
  and in the watchdog callback alike: without \<open>disableAttenuation\<close> no call of
  \<open>setAttenuation\<close>, without \<open>keepStereoMedia\<close> none of \<open>setChannelCount\<close> or
  \<open>setSampleRate\<close>, without \<open>relaxMicDSP\<close> none of the five microphone and encoder
  setters, without \<open>forceModeNormalOnWired\<close> none of \<open>setMode\<close> (nor of the headset
  query that precedes it).
\<close>

theorem disabled_settings_invoke_nothing:
  "(\<not> disableAttenuation (Settings w) \<longrightarrow>
      set (sites (new_events w (onCallStart w))) \<inter> attenuation_sites = {} \<and>
      set (sites (new_events w (snd (watchdog_tick w)))) \<inter> attenuation_sites = {})
   \<and> (\<not> keepStereoMedia (Settings w) \<longrightarrow>
      set (sites (new_events w (onCallStart w))) \<inter> stereo_sites = {} \<and>
      set (sites (new_events w (snd (watchdog_tick w)))) \<inter> stereo_sites = {})
   \<and> (\<not> relaxMicDSP (Settings w) \<longrightarrow>
      set (sites (new_events w (onCallStart w))) \<inter> mic_dsp_sites = {} \<and>
      set (sites (new_events w (snd (watchdog_tick w)))) \<inter> mic_dsp_sites = {})
   \<and> (\<not> forceModeNormalOnWired (Settings w) \<longrightarrow>
      set (sites (new_events w (onCallStart w))) \<inter> routing_sites = {} \<and>
      set (sites (new_events w (snd (watchdog_tick w)))) \<inter> routing_sites = {})"
proof -
  let ?start = "set (sites (new_events w (onCallStart w)))"
  let ?tick = "set (sites (new_events w (snd (watchdog_tick w))))"
  have s: "?start \<subseteq> start_sites (Settings w)" by (rule sites_onCallStart)
  have t: "?tick \<subseteq> tick_sites (Settings w)" by (rule sites_watchdog_tick)
  have 1: "?start \<inter> attenuation_sites = {}" "?tick \<inter> attenuation_sites = {}"
    if "\<not> disableAttenuation (Settings w)"
    using that disjoint_subset [OF s start_sites_off(1)] disjoint_subset [OF t tick_sites_off(1)]
    by blast+
  have 2: "?start \<inter> stereo_sites = {}" "?tick \<inter> stereo_sites = {}"
    if "\<not> keepStereoMedia (Settings w)"
    using that disjoint_subset [OF s start_sites_off(2)] disjoint_subset [OF t tick_sites_off(2)]
    by blast+
  have 3: "?start \<inter> mic_dsp_sites = {}" if "\<not> relaxMicDSP (Settings w)"
    using that disjoint_subset [OF s start_sites_off(3)] by blast
  have t3: "?tick \<inter> mic_dsp_sites = {}"
    by (rule disjoint_subset [OF t tick_sites_off(3)])
  have 4: "?start \<inter> routing_sites = {}" if "\<not> forceModeNormalOnWired (Settings w)"
    using that disjoint_subset [OF s start_sites_off(4)] by blast
  have t4: "?tick \<inter> routing_sites = {}"
    by (rule disjoint_subset [OF t tick_sites_off(4)])
  from 1 2 3 t3 4 t4 show ?thesis by blast
qed

lemma no_attenuation_world_start:
  "sites (new_events no_attenuation_world (onCallStart no_attenuation_world))
     = [''setChannelCount'', ''setSampleRate'', ''setEchoCancellation'', ''setNoiseSuppression'']"
  by code_simp

lemma no_attenuation_world_tick:
  "sites (new_events no_attenuation_world (snd (watchdog_tick no_attenuation_world)))
     = [''isInCall'', ''setChannelCount'', ''setSampleRate'']"
  by code_simp

lemma all_off_world_runs:
  "sites (new_events all_off_world (onCallStart all_off_world)) = []"
  "sites (new_events all_off_world (snd (watchdog_tick all_off_world))) = [''isInCall'']"
  by code_simp+

theorem disabled_settings_invoke_nothing_witness:
  "\<not> disableAttenuation (Settings no_attenuation_world)
   \<and> sites (new_events no_attenuation_world (onCallStart no_attenuation_world))
       = [''setChannelCount'', ''setSampleRate'', ''setEchoCancellation'', ''setNoiseSuppression'']
   \<and> set (sites (new_events no_attenuation_world (onCallStart no_attenuation_world)))
       \<inter> attenuation_sites = {}
   \<and> set (sites (new_events no_attenuation_world (snd (watchdog_tick no_attenuation_world))))
       \<inter> attenuation_sites = {}
   \<and> \<not> keepStereoMedia (Settings all_off_world) \<and> \<not> relaxMicDSP (Settings all_off_world)
   \<and> \<not> forceModeNormalOnWired (Settings all_off_world)
   \<and> set (sites (new_events all_off_world (onCallStart all_off_world)))
       \<inter> (stereo_sites \<union> mic_dsp_sites \<union> routing_sites) = {}
   \<and> set (sites (new_events all_off_world (snd (watchdog_tick all_off_world))))
       \<inter> (stereo_sites \<union> mic_dsp_sites \<union> routing_sites) = {}"
proof -
  have a: "\<not> disableAttenuation (Settings no_attenuation_world)"
    by (simp add: no_attenuation_world_def demo_world_def default_settings_def)
  have b: "\<not> keepStereoMedia (Settings all_off_world)" "\<not> relaxMicDSP (Settings all_off_world)"
    "\<not> forceModeNormalOnWired (Settings all_off_world)"
    by (simp_all add: all_off_world_def demo_world_def)
  note n = disabled_settings_invoke_nothing [of no_attenuation_world]
  note f = disabled_settings_invoke_nothing [of all_off_world]
  have n1: "set (sites (new_events no_attenuation_world (onCallStart no_attenuation_world)))
       \<inter> attenuation_sites = {}"
    and n2: "set (sites (new_events no_attenuation_world (snd (watchdog_tick no_attenuation_world))))
       \<inter> attenuation_sites = {}"
    using a n by blast+
  have f1: "set (sites (new_events all_off_world (onCallStart all_off_world)))
       \<inter> (stereo_sites \<union> mic_dsp_sites \<union> routing_sites) = {}"
    and f2: "set (sites (new_events all_off_world (snd (watchdog_tick all_off_world))))
       \<inter> (stereo_sites \<union> mic_dsp_sites \<union> routing_sites) = {}"
    using b f by blast+
  from a b n1 n2 f1 f2 no_attenuation_world_start show ?thesis by blast
qed

section \<open>The wrappers\<close>

text \<open>
  C2. The leave wrapper. When awaiting the original ends in a rejection, the wrapper
  rejects with the same value and \<open>onCallEnd\<close> has run once, from the \<open>finally\<close>
  block, on the world the original left. When it resolves, \<open>onCallEnd\<close> runs after the
  original and then once more from the \<open>finally\<close> block, and the wrapper resolves with
  the original's result.
\<close>

theorem leave_wrapper_runs_call_end:
  "(run_async orig this args w = (Rejected e, w1) \<longrightarrow>
      run_async (Wrapper CallEndHook orig) this args w = (Rejected e, onCallEnd w1)
      \<and> runs_of CallEndHook (new_events w1 (onCallEnd w1)) = 1)
   \<and> (run_async orig this args w = (Resolved res, w1) \<longrightarrow>
      run_async (Wrapper CallEndHook orig) this args w = (Resolved res, onCallEnd (onCallEnd w1))
      \<and> runs_of CallEndHook (new_events w1 (onCallEnd w1)) = 1
      \<and> runs_of CallEndHook (new_events w1 (onCallEnd (onCallEnd w1))) = 2)"
  by (simp add: Let_def runs_of_onCallEnd runs_of_onCallEnd_twice)

lemma demo_leave_rejects:
  "run_async (JFun 131) (JObj 15) [] demo_world
     = (Rejected (JStr ''hangup failed''), emit (Invoke ''orig'' (JObj 15) 131 []) demo_world)"
  by (simp add: demo_world_def demo_respond_def)

lemma demo_join_resolves:
  "run_async (JFun 130) (JObj 15) [] demo_world
     = (Resolved (JStr ''joined''), emit (Invoke ''orig'' (JObj 15) 130 []) demo_world)"
  by (simp add: demo_world_def demo_respond_def)

theorem leave_wrapper_runs_call_end_witness:
  "run_async (JFun 131) (JObj 15) [] demo_world
     = (Rejected (JStr ''hangup failed''), emit (Invoke ''orig'' (JObj 15) 131 []) demo_world)
   \<and> run_async (Wrapper CallEndHook (JFun 131)) (JObj 15) [] demo_world
     = (Rejected (JStr ''hangup failed''),
        onCallEnd (emit (Invoke ''orig'' (JObj 15) 131 []) demo_world))
   \<and> run_async (JFun 130) (JObj 15) [] demo_world
     = (Resolved (JStr ''joined''), emit (Invoke ''orig'' (JObj 15) 130 []) demo_world)
   \<and> run_async (Wrapper CallEndHook (JFun 130)) (JObj 15) [] demo_world
     = (Resolved (JStr ''joined''),
        onCallEnd (onCallEnd (emit (Invoke ''orig'' (JObj 15) 130 []) demo_world)))"
  using leave_wrapper_runs_call_end [of "JFun 131" "JObj 15" "[]" demo_world
          "JStr ''hangup failed''" "emit (Invoke ''orig'' (JObj 15) 131 []) demo_world"]
        leave_wrapper_runs_call_end [of "JFun 130" "JObj 15" "[]" demo_world _
          "emit (Invoke ''orig'' (JObj 15) 130 []) demo_world" "JStr ''joined''"]
        demo_leave_rejects demo_join_resolves
  by blast

text \<open>
  C10. The join wrapper. When awaiting the original ends in a rejection, the wrapper
  rejects with the same value and the world is the one the original left: \<open>onCallStart\<close>
  has not run, and nothing else has. When it resolves, \<open>onCallStart\<close> runs once and the
  wrapper resolves with the original's result.
\<close>

theorem join_wrapper_passes_through:
  "(run_async orig this args w = (Rejected e, w1) \<longrightarrow>
      run_async (Wrapper CallStartHook orig) this args w = (Rejected e, w1))
   \<and> (run_async orig this args w = (Resolved res, w1) \<longrightarrow>
      run_async (Wrapper CallStartHook orig) this args w = (Resolved res, onCallStart w1)
      \<and> runs_of CallStartHook (new_events w1 (onCallStart w1)) = 1
      \<and> runs_of CallEndHook (new_events w1 (onCallStart w1)) = 0)
   \<and> (settle (respond w (length (trace w)) r this args) = Rejected e \<longrightarrow>
      run_async (Wrapper CallStartHook (JFun r)) this args w
        = (Rejected e, emit (Invoke ''orig'' this r args) w))"
  by (simp add: runs_of_onCallStart)

lemma demo_leave_settles:
  "settle (respond demo_world (length (trace demo_world)) 131 (JObj 15) [])
     = Rejected (JStr ''hangup failed'')"
  by (simp add: demo_world_def demo_respond_def)

theorem join_wrapper_passes_through_witness:
  "run_async (JFun 131) (JObj 15) [] demo_world
     = (Rejected (JStr ''hangup failed''), emit (Invoke ''orig'' (JObj 15) 131 []) demo_world)
   \<and> run_async (Wrapper CallStartHook (JFun 131)) (JObj 15) [] demo_world
     = (Rejected (JStr ''hangup failed''), emit (Invoke ''orig'' (JObj 15) 131 []) demo_world)
   \<and> run_async (JFun 130) (JObj 15) [] demo_world
     = (Resolved (JStr ''joined''), emit (Invoke ''orig'' (JObj 15) 130 []) demo_world)
   \<and> run_async (Wrapper CallStartHook (JFun 130)) (JObj 15) [] demo_world
     = (Resolved (JStr ''joined''),
        onCallStart (emit (Invoke ''orig'' (JObj 15) 130 []) demo_world))
   \<and> settle (respond demo_world (length (trace demo_world)) 131 (JObj 15) [])
     = Rejected (JStr ''hangup failed'')"
  using join_wrapper_passes_through [of "JFun 131" "JObj 15" "[]" demo_world
          "JStr ''hangup failed''" "emit (Invoke ''orig'' (JObj 15) 131 []) demo_world"
          _ 131]
        join_wrapper_passes_through [of "JFun 130" "JObj 15" "[]" demo_world _
          "emit (Invoke ''orig'' (JObj 15) 130 []) demo_world" "JStr ''joined''"]
        demo_leave_rejects demo_join_resolves demo_leave_settles
  by blast

section \<open>Unloading\<close>

lemma trace_run_reverts: "trace (run_reverts uns w) = trace w @ map Reverted uns"
  by (induction uns arbitrary: w) (auto simp: Let_def emit_def split: sum.splits)

lemma run_reverts_frame:
  "patches (run_reverts uns w) = patches w" "timers (run_reverts uns w) = timers w"
  "intervalId (run_reverts uns w) = intervalId w" "Settings (run_reverts uns w) = Settings w"
  "handles (run_reverts uns w) = handles w"
  by (induction uns arbitrary: w) (auto simp: Let_def emit_def handles_def split: sum.splits)

lemma reverts_of_map_Reverted [simp]: "reverts_of (map Reverted uns) = uns"
  by (induction uns) auto

lemma trace_log: "\<exists>evs. trace (log msg w) = trace w @ evs \<and> reverts_of evs = []"
  by (simp add: log_def emit_def)

lemma stopWatchdog_frame:
  "trace (stopWatchdog w) = trace w" "patches (stopWatchdog w) = patches w"
  "handles (stopWatchdog w) = handles w" "Settings (stopWatchdog w) = Settings w"
  "heap (stopWatchdog w) = heap w"
  by (auto simp: stopWatchdog_def clearInterval_def Let_def handles_def split: option.splits)

lemma trace_onCallEnd:
  "\<exists>evs. trace (onCallEnd w) = trace w @ evs \<and> reverts_of evs = []"
proof -
  from onCallEnd_shape [of w] obtain evs where
    e: "onCallEnd w = w\<lparr>trace := trace w @ Ran CallEndHook # evs\<rparr>"
    "list_all (host_event (end_sites (Settings w))) evs" by blast
  have "trace (onCallEnd w) = trace w @ Ran CallEndHook # evs" by (subst e(1)) simp
  with e(2) show ?thesis by (simp add: reverts_of_host_events)
qed

lemma patches_onCallEnd: "patches (onCallEnd w) = patches w"
  using extends_onCallEnd [of w] by (auto simp: extends_iff)

lemma patches_log: "patches (log msg w) = patches w"
  by (simp add: log_def emit_def)

lemma onUnload_reverts:
  "\<exists>evs. trace (onUnload w) = trace w @ evs \<and> reverts_of evs = patches w"
proof -
  define w0 where "w0 = log ''Unloading TelegramCalls'' w"
  define w1 where "w1 = run_reverts (patches w0) (w0\<lparr>patches := []\<rparr>)"
  define w2 where "w2 = stopWatchdog w1"
  have res: "onUnload w = onCallEnd w2"
    by (simp add: onUnload_def Let_def w0_def w1_def w2_def)
  from trace_log obtain e0 where e0: "trace w0 = trace w @ e0" "reverts_of e0 = []"
    unfolding w0_def by blast
  have p0: "patches w0 = patches w" by (simp add: w0_def patches_log)
  have t1: "trace w1 = trace w @ e0 @ map Reverted (patches w)"
    by (simp add: w1_def trace_run_reverts e0 p0)
  have t2: "trace w2 = trace w1" by (simp add: w2_def stopWatchdog_frame)
  from trace_onCallEnd obtain e3 where e3: "trace (onCallEnd w2) = trace w2 @ e3" "reverts_of e3 = []"
    by blast
  have "trace (onUnload w) = trace w @ (e0 @ map Reverted (patches w) @ e3)"
    using res e3(1) t2 t1 by simp
  moreover have "reverts_of (e0 @ map Reverted (patches w) @ e3) = patches w"
    using e0(2) e3(2) by (simp add: reverts_of_append)
  ultimately show ?thesis by blast
qed

lemma patches_onUnload: "patches (onUnload w) = []"
  by (simp add: onUnload_def Let_def patches_onCallEnd stopWatchdog_frame run_reverts_frame)

lemma onUnload_again:
  assumes "patches w = []"
  shows "\<exists>evs. trace ((onUnload ^^ n) w) = trace w @ evs \<and> reverts_of evs = []
           \<and> patches ((onUnload ^^ n) w) = []"
proof (induction n)
  case 0
  with assms show ?case by simp
next
  case (Suc n)
  then obtain e1 where e1: "trace ((onUnload ^^ n) w) = trace w @ e1" "reverts_of e1 = []"
    "patches ((onUnload ^^ n) w) = []" by blast
  from onUnload_reverts [of "(onUnload ^^ n) w"] obtain e2 where
    e2: "trace (onUnload ((onUnload ^^ n) w)) = trace ((onUnload ^^ n) w) @ e2"
    "reverts_of e2 = patches ((onUnload ^^ n) w)" by blast
  have "trace ((onUnload ^^ Suc n) w) = trace w @ (e1 @ e2)" using e1(1) e2(1) by simp
  moreover have "reverts_of (e1 @ e2) = []" using e1 e2 by (simp add: reverts_of_append)
  ultimately show ?case using patches_onUnload by auto
qed

text \<open>
  C3. \<open>onUnload\<close> calls every revert in \<open>patches\<close> once, in order, whether or not an
  earlier one threw, and leaves \<open>patches\<close> empty; unloading again, any number of times,
  calls no revert a second time.
\<close>

theorem unload_reverts_each_patch_once:
  "reverts_of (new_events w (onUnload w)) = patches w
   \<and> patches (onUnload w) = []
   \<and> reverts_of (new_events w ((onUnload ^^ Suc n) w)) = patches w"
proof -
  from onUnload_reverts [of w] obtain e1 where
    e1: "trace (onUnload w) = trace w @ e1" "reverts_of e1 = patches w" by blast
  from onUnload_again [OF patches_onUnload, of n w] obtain e2 where
    e2: "trace ((onUnload ^^ n) (onUnload w)) = trace (onUnload w) @ e2" "reverts_of e2 = []"
    by blast
  have "(onUnload ^^ Suc n) w = (onUnload ^^ n) (onUnload w)" by (simp add: funpow_swap1)
  then have "trace ((onUnload ^^ Suc n) w) = trace w @ (e1 @ e2)" using e1(1) e2(1) by simp
  then have "new_events w ((onUnload ^^ Suc n) w) = e1 @ e2" by (simp add: new_events_def)
  moreover have "new_events w (onUnload w) = e1" using e1(1) by (simp add: new_events_def)
  ultimately show ?thesis using e1(2) e2(2) patches_onUnload by (simp add: reverts_of_append)
qed

lemma stuck_world_first_revert_throws:
  "run_unpatch (Unpatch (JObj 30) ''join'' (JFun 132)) (heap stuck_world) = Inl JTypeError"
  by (simp add: stuck_world_def demo_world_def write_prop_def the_obj_def)

lemma stuck_world_unload:
  "reverts_of (new_events stuck_world (onUnload stuck_world))
     = [Unpatch (JObj 30) ''join'' (JFun 132), Unpatch (JObj 15) ''joinCall'' (JFun 130),
        Unpatch (JObj 15) ''leaveCall'' (JFun 131)]"
  "get (heap (onUnload stuck_world)) (JObj 15) ''joinCall'' = Inr (JFun 130)"
  "get (heap (onUnload stuck_world)) (JObj 15) ''leaveCall'' = Inr (JFun 131)"
  "get (heap (onUnload stuck_world)) (JObj 30) ''join'' = Inr (Wrapper CallStartHook (JFun 132))"
  by code_simp+

theorem unload_reverts_each_patch_once_witness:
  "patches stuck_world
     = [Unpatch (JObj 30) ''join'' (JFun 132), Unpatch (JObj 15) ''joinCall'' (JFun 130),
        Unpatch (JObj 15) ''leaveCall'' (JFun 131)]
   \<and> run_unpatch (Unpatch (JObj 30) ''join'' (JFun 132)) (heap stuck_world) = Inl JTypeError
   \<and> reverts_of (new_events stuck_world (onUnload stuck_world)) = patches stuck_world
   \<and> get (heap (onUnload stuck_world)) (JObj 15) ''joinCall'' = Inr (JFun 130)
   \<and> get (heap (onUnload stuck_world)) (JObj 15) ''leaveCall'' = Inr (JFun 131)
   \<and> patches (onUnload stuck_world) = []
   \<and> reverts_of (new_events stuck_world (onUnload (onUnload (onUnload stuck_world))))
       = patches stuck_world"
proof -
  have p: "patches stuck_world
     = [Unpatch (JObj 30) ''join'' (JFun 132), Unpatch (JObj 15) ''joinCall'' (JFun 130),
        Unpatch (JObj 15) ''leaveCall'' (JFun 131)]"
    by (simp add: stuck_world_def)
  have three: "(onUnload ^^ Suc 2) stuck_world = onUnload (onUnload (onUnload stuck_world))"
    by (simp add: numeral_2_eq_2)
  from unload_reverts_each_patch_once [of stuck_world 2] p three
    stuck_world_first_revert_throws stuck_world_unload(2,3)
  show ?thesis by simp
qed

section \<open>The watchdog\<close>

lemma host_calls_append: "host_calls (xs @ ys) = host_calls xs @ host_calls ys"
  by (induction xs rule: host_calls.induct) auto

lemma call_fn_events:
  "new_events w (snd (call_fn site this f args w)) = []
   \<or> (\<exists>r. new_events w (snd (call_fn site this f args w)) = [Invoke site this r args])"
  by (cases f) (simp_all add: call_fn_def emit_def)

lemma opt_call_method_opt_events:
  "new_events w (snd (opt_call_method_opt obj m args w)) = []
   \<or> (\<exists>r. new_events w (snd (opt_call_method_opt obj m args w)) = [Invoke m obj r args])"
  using call_fn_events [of w m obj _ args]
  by (auto simp: opt_call_method_opt_def split: sum.splits)

lemma tick_unbound: "nullish (VoiceStore w) \<Longrightarrow> watchdog_tick w = (None, w)"
  by (simp add: watchdog_tick_def opt_call_method_opt_def opt_get_def)

lemma tick_not_in_call:
  assumes "opt_call_method_opt (VoiceStore w) ''isInCall'' [] w = (Inr v, w1)" and "\<not> truthy v"
  shows "watchdog_tick w = (None, w1)"
    and "host_calls (new_events w w1) = []
         \<or> (\<exists>r. host_calls (new_events w w1) = [Invoke ''isInCall'' (VoiceStore w) r []])"
proof -
  show "watchdog_tick w = (None, w1)" using assms by (simp add: watchdog_tick_def)
  show "host_calls (new_events w w1) = []
         \<or> (\<exists>r. host_calls (new_events w w1) = [Invoke ''isInCall'' (VoiceStore w) r []])"
    using opt_call_method_opt_events [of w "VoiceStore w" "''isInCall''" "[]"] assms(1) by auto
qed

lemma tick_in_call:
  assumes q: "opt_call_method_opt (VoiceStore w) ''isInCall'' [] w = (Inr v, w1)" and "truthy v"
  shows "watchdog_tick w =
     (None, let w2 = (if disableAttenuation (Settings w) then ensureMediaStreamNotDucked w1 else w1)
            in if keepStereoMedia (Settings w) then preferStereoOutput w2 else w2)"
proof -
  have "within {''isInCall''} w w1"
    using within_opt_call_method_opt [of "''isInCall''" "{''isInCall''}" w "VoiceStore w" "[]"] q
    by simp
  then have s1: "Settings w1 = Settings w" by (rule within_frame)
  have "Settings (ensureMediaStreamNotDucked w1) = Settings w1"
    using within_ensureMediaStreamNotDucked [of "{''setAttenuation''}" w1]
    by (simp add: within_frame)
  with s1 assms show ?thesis by (simp add: watchdog_tick_def Let_def)
qed

lemma tick_sites_bound:
  "tick_sites s \<subseteq> {''isInCall''} \<union> attenuation_sites \<union> discovery_sites \<union> stereo_sites"
  by (auto simp: tick_sites_def)

lemma fold_max_upper: "a \<le> fold max xs a \<and> (\<forall>x \<in> set xs. x \<le> fold max xs (a::nat))"
proof (induction xs arbitrary: a)
  case Nil
  show ?case by simp
next
  case (Cons y ys)
  from Cons.IH [of "max y a"] show ?case by auto
qed

lemma fresh_timer_id: "filter (\<lambda>t. fst t = Suc (fold max (map fst ts) 0)) ts = []"
proof -
  have "fst t \<noteq> Suc (fold max (map fst ts) 0)" if "t \<in> set ts" for t
  proof -
    from that have "fst t \<in> set (map fst ts)" by simp
    with fold_max_upper [of 0 "map fst ts"] have "fst t \<le> fold max (map fst ts) 0" by blast
    then show ?thesis by simp
  qed
  then show ?thesis by (simp add: filter_empty_conv)
qed

lemma startWatchdog_timer:
  "\<exists>i. intervalId (startWatchdog w) = Some i \<and> i \<noteq> 0
       \<and> filter (\<lambda>t. fst t = i) (timers (startWatchdog w)) = [(i, 2000)]"
  by (simp add: startWatchdog_def setInterval_def Let_def fresh_timer_id)

lemma stopWatchdog_timer:
  "intervalId (stopWatchdog w) = None"
  "intervalId w = Some i \<Longrightarrow> i \<noteq> 0 \<Longrightarrow> filter (\<lambda>t. fst t = i) (timers (stopWatchdog w)) = []"
  by (auto simp: stopWatchdog_def clearInterval_def Let_def filter_empty_conv)

lemma extends_frame:
  assumes "extends w w'"
  shows "timers w' = timers w" and "intervalId w' = intervalId w" and "heap w' = heap w"
    and "patches w' = patches w" and "Settings w' = Settings w"
  using assms by (auto simp: extends_iff)

lemma extends_load_check:
  "extends w (try_catch
             (\<lambda>w. case opt_call_method_opt (VoiceStore w) ''isInCall'' [] w of
                     (Inl e, w') \<Rightarrow> (Some e, w')
                   | (Inr v, w') \<Rightarrow> (None, if truthy v then onCallStart w' else w'))
             (\<lambda>e w. w) w)"
proof -
  obtain r w1 where q: "opt_call_method_opt (VoiceStore w) ''isInCall'' [] w = (r, w1)"
    by (cases "opt_call_method_opt (VoiceStore w) ''isInCall'' [] w")
  have 1: "extends w w1"
    using within_opt_call_method_opt [of "''isInCall''" "{''isInCall''}" w "VoiceStore w" "[]"] q
    by (simp add: within_extends)
  show ?thesis
  proof (cases r)
    case (Inl e)
    with q 1 show ?thesis by (simp add: try_catch_def)
  next
    case (Inr v)
    with q 1 extends_onCallStart [of w1] show ?thesis
      by (auto simp: try_catch_def intro: extends_trans)
  qed
qed

lemma onLoad_timer:
  assumes "onLoad w = (None, w')"
  shows "\<exists>i. intervalId w' = Some i \<and> i \<noteq> 0 \<and> filter (\<lambda>t. fst t = i) (timers w') = [(i, 2000)]"
proof -
  obtain r w1 where p: "patchVoiceJoinLeave (log ''Loading TelegramCalls'' w) = (r, w1)"
    by (cases "patchVoiceJoinLeave (log ''Loading TelegramCalls'' w)")
  with assms have r: "r = None" by (auto simp: onLoad_def split: option.splits)
  with p assms have w': "w' = try_catch
             (\<lambda>w. case opt_call_method_opt (VoiceStore w) ''isInCall'' [] w of
                     (Inl e, w') \<Rightarrow> (Some e, w')
                   | (Inr v, w') \<Rightarrow> (None, if truthy v then onCallStart w' else w'))
             (\<lambda>e w. w) (startWatchdog w1)"
    by (simp add: onLoad_def)
  have "extends (startWatchdog w1) w'" unfolding w' by (rule extends_load_check)
  then have "timers w' = timers (startWatchdog w1)" "intervalId w' = intervalId (startWatchdog w1)"
    by (simp_all add: extends_frame)
  with startWatchdog_timer [of w1] show ?thesis by simp
qed

lemma onUnload_timer:
  "intervalId (onUnload w) = None"
  "intervalId w = Some i \<Longrightarrow> i \<noteq> 0 \<Longrightarrow> filter (\<lambda>t. fst t = i) (timers (onUnload w)) = []"
proof -
  define w1 where "w1 = run_reverts (patches (log ''Unloading TelegramCalls'' w))
                          ((log ''Unloading TelegramCalls'' w)\<lparr>patches := []\<rparr>)"
  have res: "onUnload w = onCallEnd (stopWatchdog w1)"
    by (simp add: onUnload_def Let_def w1_def)
  have f: "timers (onUnload w) = timers (stopWatchdog w1)"
    "intervalId (onUnload w) = intervalId (stopWatchdog w1)"
    unfolding res using extends_onCallEnd [of "stopWatchdog w1"] by (simp_all add: extends_frame)
  have i1: "intervalId w1 = intervalId w" and t1: "timers w1 = timers w"
    by (simp_all add: w1_def run_reverts_frame log_def emit_def)
  show "intervalId (onUnload w) = None" using f by (simp add: stopWatchdog_timer)
  show "filter (\<lambda>t. fst t = i) (timers (onUnload w)) = []" if "intervalId w = Some i" "i \<noteq> 0"
    using that f i1 stopWatchdog_timer(2) [of w1 i] by simp
qed

text \<open>
  C8, as amended. \<open>startWatchdog\<close> registers one timer of period 2000 under a fresh
  identifier, a load that returns leaves it registered, a tick does not touch it, and
  \<open>onUnload\<close> clears it. On a tick: with the voice store unbound nothing happens at
  all; when \<open>isInCall\<close> answers falsy the only host call of the tick is that query;
  when it answers truthy the tick runs \<open>ensureMediaStreamNotDucked\<close> and then
  \<open>preferStereoOutput\<close>, each under its flag. No tick ever uses a call site of the
  microphone or routing actions.
\<close>

theorem watchdog_enforcement:
  "(\<exists>i. intervalId (startWatchdog w) = Some i \<and> i \<noteq> 0
        \<and> filter (\<lambda>t. fst t = i) (timers (startWatchdog w)) = [(i, 2000)])
   \<and> (onLoad w = (None, w') \<longrightarrow>
        (\<exists>i. intervalId w' = Some i \<and> i \<noteq> 0
           \<and> filter (\<lambda>t. fst t = i) (timers w') = [(i, 2000)]))
   \<and> timers (snd (watchdog_tick w)) = timers w
   \<and> intervalId (snd (watchdog_tick w)) = intervalId w
   \<and> intervalId (onUnload w) = None
   \<and> (intervalId w = Some j \<and> j \<noteq> 0 \<longrightarrow> filter (\<lambda>t. fst t = j) (timers (onUnload w)) = [])
   \<and> (nullish (VoiceStore w) \<longrightarrow> watchdog_tick w = (None, w))
   \<and> (opt_call_method_opt (VoiceStore w) ''isInCall'' [] w = (Inr v, w1) \<and> \<not> truthy v \<longrightarrow>
        watchdog_tick w = (None, w1)
        \<and> (host_calls (new_events w w1) = []
           \<or> (\<exists>r. host_calls (new_events w w1) = [Invoke ''isInCall'' (VoiceStore w) r []])))
   \<and> (opt_call_method_opt (VoiceStore w) ''isInCall'' [] w = (Inr v, w1) \<and> truthy v \<longrightarrow>
        watchdog_tick w =
          (None, let w2 = (if disableAttenuation (Settings w)
                           then ensureMediaStreamNotDucked w1 else w1)
                 in if keepStereoMedia (Settings w) then preferStereoOutput w2 else w2))
   \<and> set (sites (new_events w (snd (watchdog_tick w))))
        \<subseteq> {''isInCall''} \<union> attenuation_sites \<union> discovery_sites \<union> stereo_sites
   \<and> set (sites (new_events w (snd (watchdog_tick w)))) \<inter> (mic_dsp_sites \<union> routing_sites) = {}"
proof -
  have fr: "timers (snd (watchdog_tick w)) = timers w"
    "intervalId (snd (watchdog_tick w)) = intervalId w"
    using watchdog_tick_within [of w] by (simp_all add: within_frame)
  have up: "set (sites (new_events w (snd (watchdog_tick w))))
        \<subseteq> {''isInCall''} \<union> attenuation_sites \<union> discovery_sites \<union> stereo_sites"
    using sites_watchdog_tick [of w] tick_sites_bound [of "Settings w"] by blast
  have never: "set (sites (new_events w (snd (watchdog_tick w)))) \<inter> (mic_dsp_sites \<union> routing_sites) = {}"
    using sites_watchdog_tick [of w] tick_sites_off(3,4) [of "Settings w"] by blast
  show ?thesis
    using startWatchdog_timer [of w] onLoad_timer [of w w'] fr onUnload_timer(1) [of w] onUnload_timer(2) [of w j]
      tick_unbound [of w] tick_not_in_call [of w v w1] tick_in_call [of w v w1] up never
    by blast
qed

text \<open>
  C8 as stated fails: while the voice store is bound and reports that no call is on,
  the tick has called a host method, the query itself.
\<close>

theorem tick_query_counterexample:
  "fst (opt_call_method_opt (VoiceStore idle_world) ''isInCall'' [] idle_world) = Inr (JBool False)
   \<and> host_calls (new_events idle_world (snd (watchdog_tick idle_world)))
       = [Invoke ''isInCall'' (JObj 13) 101 []]"
  by code_simp

lemma demo_load_runs:
  "fst (onLoad demo_world) = None"
  "intervalId (snd (onLoad demo_world)) = Some 1"
  "timers (snd (onLoad demo_world)) = [(1, 2000)]"
  by code_simp+

lemma demo_tick_runs:
  "fst (opt_call_method_opt (VoiceStore demo_world) ''isInCall'' [] demo_world) = Inr (JBool True)"
  "sites (new_events demo_world (snd (watchdog_tick demo_world)))
     = [''isInCall'', ''setAttenuation'', ''setChannelCount'', ''setSampleRate'']"
  "fst (opt_call_method_opt (VoiceStore idle_world) ''isInCall'' [] idle_world) = Inr (JBool False)"
  "host_calls (new_events idle_world (snd (opt_call_method_opt (VoiceStore idle_world) ''isInCall'' [] idle_world)))
     = [Invoke ''isInCall'' (JObj 13) 101 []]"
  by code_simp+

theorem watchdog_enforcement_witness:
  "onLoad demo_world = (None, snd (onLoad demo_world))
   \<and> intervalId (snd (onLoad demo_world)) = Some 1
   \<and> filter (\<lambda>t. fst t = 1) (timers (snd (onLoad demo_world))) = [(1, 2000)]
   \<and> filter (\<lambda>t. fst t = 1) (timers (onUnload (snd (onLoad demo_world)))) = []
   \<and> nullish (VoiceStore unbound_world)
   \<and> watchdog_tick unbound_world = (None, unbound_world)
   \<and> \<not> truthy (JBool False)
   \<and> opt_call_method_opt (VoiceStore idle_world) ''isInCall'' [] idle_world
       = (Inr (JBool False), snd (opt_call_method_opt (VoiceStore idle_world) ''isInCall'' [] idle_world))
   \<and> watchdog_tick idle_world
       = (None, snd (opt_call_method_opt (VoiceStore idle_world) ''isInCall'' [] idle_world))
   \<and> truthy (JBool True)
   \<and> opt_call_method_opt (VoiceStore demo_world) ''isInCall'' [] demo_world
       = (Inr (JBool True), snd (opt_call_method_opt (VoiceStore demo_world) ''isInCall'' [] demo_world))
   \<and> watchdog_tick demo_world
       = (None, preferStereoOutput (ensureMediaStreamNotDucked
            (snd (opt_call_method_opt (VoiceStore demo_world) ''isInCall'' [] demo_world))))
   \<and> sites (new_events demo_world (snd (watchdog_tick demo_world)))
       = [''isInCall'', ''setAttenuation'', ''setChannelCount'', ''setSampleRate'']"
proof -
  let ?loaded = "snd (onLoad demo_world)"
  let ?idle = "snd (opt_call_method_opt (VoiceStore idle_world) ''isInCall'' [] idle_world)"
  let ?busy = "snd (opt_call_method_opt (VoiceStore demo_world) ''isInCall'' [] demo_world)"
  have load: "onLoad demo_world = (None, ?loaded)"
    using demo_load_runs(1) by (metis prod.collapse)
  have qi: "opt_call_method_opt (VoiceStore idle_world) ''isInCall'' [] idle_world
              = (Inr (JBool False), ?idle)"
    using demo_tick_runs(3) by (metis prod.collapse)
  have qb: "opt_call_method_opt (VoiceStore demo_world) ''isInCall'' [] demo_world
              = (Inr (JBool True), ?busy)"
    using demo_tick_runs(1) by (metis prod.collapse)
  have nb: "nullish (VoiceStore unbound_world)" by (simp add: unbound_world_def)
  have flags: "disableAttenuation (Settings demo_world)" "keepStereoMedia (Settings demo_world)"
    by (simp_all add: demo_world_def default_settings_def)
  have one: "(1::nat) \<noteq> 0" by simp
  note a = watchdog_enforcement [of demo_world ?loaded 1 "JBool True" ?busy]
  note b = watchdog_enforcement [of idle_world _ _ "JBool False" ?idle]
  note c = watchdog_enforcement [of unbound_world]
  note d = watchdog_enforcement [of ?loaded _ 1]
  have t1: "filter (\<lambda>t. fst t = 1) (timers ?loaded) = [(1, 2000)]"
    using a load demo_load_runs(2) by auto
  have t2: "filter (\<lambda>t. fst t = 1) (timers (onUnload ?loaded)) = []"
    using d demo_load_runs(2) one by blast
  have u: "watchdog_tick unbound_world = (None, unbound_world)" using c nb by blast
  have i: "watchdog_tick idle_world = (None, ?idle)" using b qi by simp
  have "watchdog_tick demo_world =
          (None, let w2 = (if disableAttenuation (Settings demo_world)
                           then ensureMediaStreamNotDucked ?busy else ?busy)
                 in if keepStereoMedia (Settings demo_world) then preferStereoOutput w2 else w2)"
    using a qb by simp
  then have t: "watchdog_tick demo_world
       = (None, preferStereoOutput (ensureMediaStreamNotDucked ?busy))"
    using flags by (simp add: Let_def)
  from load demo_load_runs(2) t1 t2 nb u qi i qb t demo_tick_runs(2) show ?thesis by simp
qed

section \<open>Handles\<close>

lemma patch_pair_handles: "handles (snd (patch_pair j l w)) = handles w"
  by (auto simp: patch_pair_def handles_def Let_def split: sum.splits prod.splits)

lemma patchVoiceJoinLeave_handles: "handles (snd (patchVoiceJoinLeave w)) = handles w"
  by (simp add: patchVoiceJoinLeave_def patch_pair_handles split: sum.splits)

lemma startWatchdog_handles: "handles (startWatchdog w) = handles w"
  by (simp add: startWatchdog_def setInterval_def Let_def handles_def stopWatchdog_def
        clearInterval_def split: option.splits)

lemma log_handles: "handles (log msg w) = handles w"
  by (simp add: log_def emit_def handles_def)

lemma onLoad_handles: "handles (snd (onLoad w)) = handles w"
proof -
  obtain r w1 where p: "patchVoiceJoinLeave (log ''Loading TelegramCalls'' w) = (r, w1)"
    by (cases "patchVoiceJoinLeave (log ''Loading TelegramCalls'' w)")
  have h1: "handles w1 = handles w"
    using patchVoiceJoinLeave_handles [of "log ''Loading TelegramCalls'' w"] p
    by (simp add: log_handles)
  show ?thesis
  proof (cases r)
    case (Some e)
    with p h1 show ?thesis by (simp add: onLoad_def)
  next
    case None
    with p have "snd (onLoad w) = try_catch
             (\<lambda>w. case opt_call_method_opt (VoiceStore w) ''isInCall'' [] w of
                     (Inl e, w') \<Rightarrow> (Some e, w')
                   | (Inr v, w') \<Rightarrow> (None, if truthy v then onCallStart w' else w'))
             (\<lambda>e w. w) (startWatchdog w1)"
      by (simp add: onLoad_def)
    with extends_load_check [of "startWatchdog w1"] h1 show ?thesis
      by (simp add: extends_handles startWatchdog_handles)
  qed
qed

lemma onUnload_handles: "handles (onUnload w) = handles w"
proof -
  define w1 where "w1 = run_reverts (patches (log ''Unloading TelegramCalls'' w))
                          ((log ''Unloading TelegramCalls'' w)\<lparr>patches := []\<rparr>)"
  have res: "onUnload w = onCallEnd (stopWatchdog w1)"
    by (simp add: onUnload_def Let_def w1_def)
  have "handles ((log ''Unloading TelegramCalls'' w)\<lparr>patches := []\<rparr>) = handles w"
    by (simp add: log_def emit_def handles_def)
  then have "handles w1 = handles w"
    by (simp add: w1_def run_reverts_frame(5))
  then show ?thesis
    unfolding res using extends_onCallEnd [of "stopWatchdog w1"]
    by (simp add: extends_handles stopWatchdog_frame)
qed

lemma preferStereoOutput_player:
  assumes "find_player w = (Inr p, w1)"
  shows "preferStereoOutput w =
           try_catch (seq [call_if_present p ''setChannelCount'' [JNum 2],
                           call_if_present p ''setSampleRate'' [JNum 48000],
                           log_step ''Preferred stereo, 48 kHz output''])
                     (\<lambda>e. log ''Stereo preference failed'') w1"
  using assms by (simp add: preferStereoOutput_def try_catch_def)

text \<open>
  C9 as stated fails for the stereo output control: it is no module-level handle. Two
  hosts with the same six handles, differing only in what the registry holds now, make
  \<open>preferStereoOutput\<close> call different objects: the player is searched when the
  action runs.
\<close>

theorem player_rediscovered_counterexample:
  "handles swapped_world = handles demo_world
   \<and> host_calls (new_events demo_world (preferStereoOutput demo_world))
       = [Invoke ''setChannelCount'' (JObj 16) 140 [JNum 2],
          Invoke ''setSampleRate'' (JObj 16) 141 [JNum 48000]]
   \<and> host_calls (new_events swapped_world (preferStereoOutput swapped_world))
       = [Invoke ''setChannelCount'' (JObj 26) 240 [JNum 2],
          Invoke ''setSampleRate'' (JObj 26) 241 [JNum 48000]]
   \<and> host_calls (new_events swapped_world (snd (watchdog_tick swapped_world)))
       = [Invoke ''isInCall'' (JObj 13) 101 [],
          Invoke ''setAttenuation'' (JObj 24) 121 [JNum 0],
          Invoke ''setChannelCount'' (JObj 26) 240 [JNum 2],
          Invoke ''setSampleRate'' (JObj 26) 241 [JNum 48000]]"
  by code_simp

text \<open>
  C9, as amended. The six module-level handles are bound when the module is evaluated
  and no later operation changes them: not the policy actions, the watchdog callback,
  the wrappers, loading, unloading or the settings form. The stereo output control is
  not among them: every run of \<open>preferStereoOutput\<close> works on what its own registry
  search returns.
\<close>

theorem handles_stay_bound:
  "handles (onCallStart w) = handles w
   \<and> handles (onCallEnd w) = handles w
   \<and> handles (snd (watchdog_tick w)) = handles w
   \<and> handles (snd (run_async f this args w)) = handles w
   \<and> handles (snd (onLoad w)) = handles w
   \<and> handles (onUnload w) = handles w
   \<and> handles (upd k b w) = handles w
   \<and> (find_player w = (Inr p, w1) \<longrightarrow>
        preferStereoOutput w =
          try_catch (seq [call_if_present p ''setChannelCount'' [JNum 2],
                          call_if_present p ''setSampleRate'' [JNum 48000],
                          log_step ''Preferred stereo, 48 kHz output''])
                    (\<lambda>e. log ''Stereo preference failed'') w1)"
proof -
  have "handles (upd k b w) = handles w" by (simp add: upd_def handles_def)
  moreover have "handles (snd (watchdog_tick w)) = handles w"
    using watchdog_tick_within [of w] by (rule within_frame)
  moreover have "handles (onCallStart w) = handles w"
    by (rule extends_handles [OF extends_onCallStart])
  moreover have "handles (onCallEnd w) = handles w"
    by (rule extends_handles [OF extends_onCallEnd])
  moreover have "handles (snd (run_async f this args w)) = handles w"
    by (rule extends_handles [OF extends_run_async])
  moreover note onLoad_handles [of w] onUnload_handles [of w] preferStereoOutput_player [of w p w1]
  ultimately show ?thesis by blast
qed

lemma demo_player: "fst (find_player demo_world) = Inr (JObj 16)"
  by code_simp

lemma fresh_world_init:
  "fst (index_ts_init fresh_world) = None"
  "handles (snd (index_ts_init fresh_world)) = (JObj 13, JObj 17, JObj 24, JNull, JNull, JObj 15)"
  by code_simp+

theorem handles_stay_bound_witness:
  "fst (index_ts_init fresh_world) = None
   \<and> handles (snd (index_ts_init fresh_world)) = handles demo_world
   \<and> find_player demo_world = (Inr (JObj 16), snd (find_player demo_world))
   \<and> preferStereoOutput demo_world =
        try_catch (seq [call_if_present (JObj 16) ''setChannelCount'' [JNum 2],
                        call_if_present (JObj 16) ''setSampleRate'' [JNum 48000],
                        log_step ''Preferred stereo, 48 kHz output''])
                  (\<lambda>e. log ''Stereo preference failed'') (snd (find_player demo_world))
   \<and> handles (snd (watchdog_tick demo_world)) = (JObj 13, JObj 17, JObj 24, JNull, JNull, JObj 15)"
proof -
  have f: "find_player demo_world = (Inr (JObj 16), snd (find_player demo_world))"
    using demo_player by (metis prod.collapse)
  have h: "handles demo_world = (JObj 13, JObj 17, JObj 24, JNull, JNull, JObj 15)"
    by (simp add: handles_def demo_world_def)
  from handles_stay_bound [of demo_world _ _ _ _ _ "JObj 16" "snd (find_player demo_world)"]
    f h fresh_world_init
  show ?thesis by simp
qed

section \<open>The signature search\<close>

lemma js_in_object: "truthy v \<Longrightarrow> typeof_object v \<Longrightarrow> \<exists>b. js_in h p v = Inr b"
  by (cases v) auto

lemma every_in_object: "truthy v \<Longrightarrow> typeof_object v \<Longrightarrow> \<exists>b. every_in h props v = Inr b"
proof (induction props)
  case Nil
  show ?case by auto
next
  case (Cons p ps)
  from js_in_object [OF Cons.prems, of h p] obtain b where "js_in h p v = Inr b" by blast
  with Cons show ?case by auto
qed

lemma probe_candidates:
  "find (in_superset h props) (candidates h md)
     = (case probe h props md of Inr (Some v) \<Rightarrow> Some v | _ \<Rightarrow> None)"
proof (cases "opt_get h md ''exports''")
  case (Inl e)
  then show ?thesis by (simp add: probe_def candidates_def)
next
  case (Inr x)
  define exp where "exp = coalesce x md"
  show ?thesis
  proof (cases "truthy exp \<and> typeof_object exp")
    case False
    with Inr show ?thesis by (auto simp: probe_def candidates_def exp_def Let_def)
  next
    case True
    from every_in_object [of exp h props] True obtain b where b: "every_in h props exp = Inr b"
      by blast
    show ?thesis
    proof (cases b)
      case True
      with \<open>truthy exp \<and> typeof_object exp\<close> b Inr show ?thesis
        by (auto simp: probe_def candidates_def exp_def [symmetric] Let_def in_superset_def
                 split: sum.splits)
    next
      case nb: False
      show ?thesis
      proof (cases "get h exp ''default''")
        case (Inl e)
        with nb True b Inr show ?thesis
          by (simp add: probe_def candidates_def exp_def [symmetric] Let_def in_superset_def)
      next
        case d: (Inr d)
        show ?thesis
        proof (cases "truthy d \<and> typeof_object d")
          case False
          with d nb True b Inr show ?thesis
            by (auto simp: probe_def candidates_def exp_def [symmetric] Let_def in_superset_def)
        next
          case td: True
          from every_in_object [of d h props] td obtain b' where "every_in h props d = Inr b'"
            by blast
          with td d nb True b Inr show ?thesis
            by (cases b')
               (simp_all add: probe_def candidates_def exp_def [symmetric] Let_def in_superset_def)
        qed
      qed
    qed
  qed
qed

lemma find_append: "find P (xs @ ys) = (case find P xs of None \<Rightarrow> find P ys | Some v \<Rightarrow> Some v)"
  by (induction xs) auto

lemma findByProps_loop_first:
  "findByProps_loop h props mods
     = first_of (in_superset h props) (concat (map (candidates h) mods))"
proof (induction mods)
  case Nil
  show ?case by (simp add: first_of_def)
next
  case (Cons m ms)
  show ?case
  proof (cases "probe h props m")
    case (Inl e)
    with Cons probe_candidates [of h props m] show ?thesis
      by (simp add: first_of_def find_append)
  next
    case (Inr r)
    with Cons probe_candidates [of h props m] show ?thesis
      by (cases r) (simp_all add: first_of_def find_append)
  qed
qed

text \<open>
  C6 as stated fails: the voice store is a class instance whose two methods sit on the
  prototype, so no candidate has them as own properties and the stated search finds
  nothing, while the code returns the store.
\<close>

theorem own_property_search_counterexample:
  "fst (getModules demo_world) = Inr [JObj 2, JObj 3, JObj 4, JObj 5, JObj 6, JObj 7]
   \<and> fst (findByProps [''getCurrentVoiceChannelId'', ''isInCall''] demo_world) = Inr (JObj 13)
   \<and> \<not> own_superset demo_heap [''getCurrentVoiceChannelId'', ''isInCall''] (JObj 13)
   \<and> spec_findByProps demo_heap [''getCurrentVoiceChannelId'', ''isInCall'']
        [JObj 2, JObj 3, JObj 4, JObj 5, JObj 6, JObj 7] = JNull"
  by code_simp

text \<open>
  C6, as amended. The search returns the first candidate in scan order (each module's
  export, then the \<open>default\<close> of that export) that is a non-null object and has every
  required member as an own or inherited property; \<open>null\<close> when there is none.
\<close>

theorem findByProps_returns_first_match:
  "findByProps_loop h props mods
     = first_of (in_superset h props) (concat (map (candidates h) mods))
   \<and> (getModules w = (Inr mods, w') \<longrightarrow>
        findByProps props w
          = (Inr (first_of (in_superset (heap w') props)
                    (concat (map (candidates (heap w')) mods))), w'))"
  by (simp add: findByProps_loop_first findByProps_def)

lemma demo_registry:
  "fst (getModules demo_world) = Inr [JObj 2, JObj 3, JObj 4, JObj 5, JObj 6, JObj 7]"
  "concat (map (candidates demo_heap) [JObj 2, JObj 3, JObj 4, JObj 5, JObj 6, JObj 7])
     = [JObj 13, JUndefined, JObj 14, JObj 24, JObj 15, JUndefined, JObj 16, JUndefined,
        JObj 17, JUndefined]"
  "first_of (in_superset demo_heap [''getAttenuation'', ''setAttenuation''])
     [JObj 13, JUndefined, JObj 14, JObj 24, JObj 15, JUndefined, JObj 16, JUndefined,
      JObj 17, JUndefined] = JObj 24"
  "first_of (in_superset demo_heap [''setOutputConfig''])
     [JObj 13, JUndefined, JObj 14, JObj 24, JObj 15, JUndefined, JObj 16, JUndefined,
      JObj 17, JUndefined] = JNull"
  by code_simp+

lemma demo_registry_world: "snd (getModules demo_world) = demo_world"
  by (simp add: getModules_def demo_world_def heap_defs opt_call_method_opt_def opt_get_def)

theorem findByProps_returns_first_match_witness:
  "getModules demo_world = (Inr [JObj 2, JObj 3, JObj 4, JObj 5, JObj 6, JObj 7], demo_world)
   \<and> findByProps [''getAttenuation'', ''setAttenuation''] demo_world = (Inr (JObj 24), demo_world)
   \<and> findByProps [''setOutputConfig''] demo_world = (Inr JNull, demo_world)"
proof -
  have g: "getModules demo_world = (Inr [JObj 2, JObj 3, JObj 4, JObj 5, JObj 6, JObj 7], demo_world)"
    using demo_registry(1) demo_registry_world by (metis prod.collapse)
  have h: "heap demo_world = demo_heap" by (simp add: demo_world_def)
  from findByProps_returns_first_match [of _ "[''getAttenuation'', ''setAttenuation'']"
         "[JObj 2, JObj 3, JObj 4, JObj 5, JObj 6, JObj 7]" demo_world demo_world] g
  have "findByProps [''getAttenuation'', ''setAttenuation''] demo_world
          = (Inr (first_of (in_superset (heap demo_world) [''getAttenuation'', ''setAttenuation''])
               (concat (map (candidates (heap demo_world))
                  [JObj 2, JObj 3, JObj 4, JObj 5, JObj 6, JObj 7]))), demo_world)"
    by blast
  then have a: "findByProps [''getAttenuation'', ''setAttenuation''] demo_world
                  = (Inr (JObj 24), demo_world)"
    unfolding h demo_registry(2) demo_registry(3) .
  from findByProps_returns_first_match [of _ "[''setOutputConfig'']"
         "[JObj 2, JObj 3, JObj 4, JObj 5, JObj 6, JObj 7]" demo_world demo_world] g
  have "findByProps [''setOutputConfig''] demo_world
          = (Inr (first_of (in_superset (heap demo_world) [''setOutputConfig''])
               (concat (map (candidates (heap demo_world))
                  [JObj 2, JObj 3, JObj 4, JObj 5, JObj 6, JObj 7]))), demo_world)"
    by blast
  then have b: "findByProps [''setOutputConfig''] demo_world = (Inr JNull, demo_world)"
    unfolding h demo_registry(2) demo_registry(4) .
  from g a b show ?thesis by blast
qed

section \<open>The display-name search\<close>

text \<open>
  C5. \<open>findByDisplayName\<close> has no \<open>try\<close> around its loop body: on a registry whose first
  record has a throwing \<open>exports\<close> getter it throws, where \<open>findByProps\<close> skips the
  record and finds its target.
\<close>

theorem findByDisplayName_throws:
  "fst (findByDisplayName ''TelegramCallsSettings'' demo_world) = Inl (JStr ''not ready'')
   \<and> fst (findByProps [''getAttenuation'', ''setAttenuation''] demo_world) = Inr (JObj 24)"
  by code_simp

section \<open>The two settings objects\<close>

text \<open>
  C1. The settings form writes to the object in \<open>globalThis.__TelegramCallsSettings\<close>;
  the policy engine reads the \<open>Settings\<close> literal of \<open>index.ts\<close>. After the form switches
  \<open>disableAttenuation\<close> off, the engine still reads it as on and still calls
  \<open>setAttenuation\<close> on call start.
\<close>

theorem settings_form_write_not_seen:
  "TelegramCallsSettings (upd DisableAttenuation False (settings_tsx_init demo_world))
     = Some (default_settings\<lparr>disableAttenuation := False\<rparr>)
   \<and> get_setting DisableAttenuation
        (Settings (upd DisableAttenuation False (settings_tsx_init demo_world)))
   \<and> sites (new_events (upd DisableAttenuation False (settings_tsx_init demo_world))
        (onCallStart (upd DisableAttenuation False (settings_tsx_init demo_world))))
       = [''setAttenuation'', ''setChannelCount'', ''setSampleRate'', ''setEchoCancellation'',
          ''setNoiseSuppression'']"
  by code_simp

end
